theory Spec2Isabelle
  imports Complex_Main "HOL-Library.Log_Nat" "HOL-Library.Sublist"
begin

section \<open>The WebP converter component (src/pages/index.tsx)\<close>

text \<open>
  The component keeps six pieces of React state (\<open>files\<close>, \<open>converting\<close>,
  \<open>convertedFiles\<close>, \<open>quality\<close>, \<open>progress\<close>, \<open>stats\<close>) and a handful of
  callbacks over them. The callbacks are embedded as functions on a record of that
  state; the browser (image decoding, canvas encoding, random ids, object URLs) is a
  record of functions the callbacks consult. The second source file differs from
  \<open>src/pages/index.tsx\<close> only in \<open>downloadAllFiles\<close> and in markup; every function
  embedded here is textually the same in both.
\<close>

subsection \<open>JavaScript numbers\<close>

text \<open>
  A JavaScript Number is an IEEE-754 double. Byte counts (\<open>File.size\<close>, \<open>Blob.size\<close>
  and their running totals) are integers far below \<open>2^53\<close>, where double arithmetic on
  integers is exact: they are \<open>nat\<close>, and their difference is an \<open>int\<close>. The results
  of \<open>/\<close> and \<open>*\<close> are values of \<open>number\<close>: a finite double (held as the rational
  it denotes), \<open>NaN\<close>, or an infinity. Negative zero never arises from these operands
  and is not represented.
\<close>

datatype number = Fin rat | NaN | PosInf | NegInf

text \<open>Powers of two with an integer exponent.\<close>

definition pow2 :: "int \<Rightarrow> rat" where
  "pow2 e = (if 0 \<le> e then 2 ^ nat e else 1 / 2 ^ nat (- e))"

text \<open>
  \<open>binade x\<close> is the exponent \<open>e\<close> with \<open>2^e \<le> x < 2^(e+1)\<close> for \<open>x > 0\<close>, found from
  the bit lengths of numerator and denominator.
\<close>

definition binade :: "rat \<Rightarrow> int" where
  "binade x =
     (let (p, q) = quotient_of x; d = bitlen p - bitlen q
      in if pow2 d \<le> x then d else d - 1)"

definition round_half_even :: "rat \<Rightarrow> int" where
  "round_half_even x =
     (let f = \<lfloor>x\<rfloor>; d = x - of_int f
      in if d < 1 / 2 then f
         else if 1 / 2 < d then f + 1
         else if even f then f else f + 1)"

text \<open>
  \<open>fl x\<close> is the double nearest to \<open>x\<close> (round to nearest, ties to even, 53-bit
  significand). Overflow and subnormals are not modelled: the quotients and products
  below stay between \<open>2^(-60)\<close> and \<open>2^60\<close> in magnitude.
\<close>

definition fl :: "rat \<Rightarrow> rat" where
  "fl x =
     (if x = 0 then 0
      else let a = \<bar>x\<bar>; u = pow2 (binade a - 52)
           in sgn x * of_int (round_half_even (a / u)) * u)"

text \<open>The operator \<open>/\<close> on Numbers.\<close>

fun js_div :: "number \<Rightarrow> number \<Rightarrow> number" where
  "js_div (Fin x) (Fin y) =
     (if y = 0 then (if x = 0 then NaN else if 0 < x then PosInf else NegInf)
      else Fin (fl (x / y)))"
| "js_div (Fin x) PosInf = Fin 0"
| "js_div (Fin x) NegInf = Fin 0"
| "js_div PosInf (Fin y) = (if 0 \<le> y then PosInf else NegInf)"
| "js_div NegInf (Fin y) = (if 0 \<le> y then NegInf else PosInf)"
| "js_div _ _ = NaN"

text \<open>The operator \<open>*\<close> on Numbers.\<close>

fun js_mul :: "number \<Rightarrow> number \<Rightarrow> number" where
  "js_mul (Fin x) (Fin y) = Fin (fl (x * y))"
| "js_mul (Fin x) PosInf = (if x = 0 then NaN else if 0 < x then PosInf else NegInf)"
| "js_mul (Fin x) NegInf = (if x = 0 then NaN else if 0 < x then NegInf else PosInf)"
| "js_mul PosInf (Fin y) = (if y = 0 then NaN else if 0 < y then PosInf else NegInf)"
| "js_mul NegInf (Fin y) = (if y = 0 then NaN else if 0 < y then NegInf else PosInf)"
| "js_mul PosInf PosInf = PosInf"
| "js_mul NegInf NegInf = PosInf"
| "js_mul PosInf NegInf = NegInf"
| "js_mul NegInf PosInf = NegInf"
| "js_mul _ _ = NaN"

subsection \<open>Number.prototype.toFixed\<close>

definition digit :: "nat \<Rightarrow> char" where
  "digit d = ''0123456789'' ! d"

fun digits :: "nat \<Rightarrow> string" where
  "digits n = (if n < 10 then [digit n] else digits (n div 10) @ [digit (n mod 10)])"

declare digits.simps [simp del]

text \<open>
  \<open>x.toFixed(f)\<close> after ECMA-262: \<open>NaN\<close> gives \<open>"NaN"\<close>; a value of magnitude
  \<open>10^21\<close> or more (the infinities among them) is rendered by Number::toString; otherwise
  the sign is split off, \<open>n\<close> is the integer nearest to \<open>x * 10^f\<close> (the larger one on a
  tie), and its digits are padded on the left to \<open>f + 1\<close> places and split by a point
  before the last \<open>f\<close>. Number::toString of a finite double of magnitude \<open>10^21\<close> or more
  is exponent notation; it is not modelled and is taken as the parameter \<open>expo\<close>.
\<close>

definition toFixed :: "(rat \<Rightarrow> string) \<Rightarrow> nat \<Rightarrow> number \<Rightarrow> string" where
  "toFixed expo f x =
     (case x of
        NaN \<Rightarrow> ''NaN''
      | PosInf \<Rightarrow> ''Infinity''
      | NegInf \<Rightarrow> ''-Infinity''
      | Fin v \<Rightarrow>
          if 10 ^ 21 \<le> \<bar>v\<bar> then expo v
          else
            let s = (if v < 0 then ''-'' else '''');
                n = nat \<lfloor>\<bar>v\<bar> * 10 ^ f + 1 / 2\<rfloor>;
                m = digits n;
                m = (if f \<noteq> 0 \<and> length m \<le> f
                     then replicate (f + 1 - length m) (CHR ''0'') @ m else m);
                k = length m
            in if f \<noteq> 0 then s @ take (k - f) m @ ''.'' @ drop (k - f) m else s @ m)"

subsection \<open>Strings\<close>

text \<open>
  File names and media types are JavaScript strings; they are modelled as \<open>string\<close>,
  one \<open>char\<close> per code unit, over the Latin-1 range. On that range \<open>toLowerCase\<close>
  maps \<open>A\<close>..\<open>Z\<close> and the accented capitals \<open>0xC0\<close>..\<open>0xDE\<close> (without the
  multiplication sign \<open>0xD7\<close>) to the letter 32 places further on and keeps every
  other code unit.
\<close>

definition toLowerChar :: "char \<Rightarrow> char" where
  "toLowerChar c =
     (let n = (of_char c :: nat)
      in if (65 \<le> n \<and> n \<le> 90) \<or> (192 \<le> n \<and> n \<le> 222 \<and> n \<noteq> 215)
         then char_of (n + 32) else c)"

definition toLowerCase :: "string \<Rightarrow> string" where
  "toLowerCase s = map toLowerChar s"

definition startsWith :: "string \<Rightarrow> string \<Rightarrow> bool" where
  "startsWith s p = (take (length p) s = p)"

definition endsWith :: "string \<Rightarrow> string \<Rightarrow> bool" where
  "endsWith s p = (length p \<le> length s \<and> drop (length s - length p) s = p)"

text \<open>
  \<open>name.replace(/\.[^/.]+$/, '.webp')\<close>. The pattern is a point, then one or more
  characters that are neither \<open>/\<close> nor a point, then the end of the string.
  \<open>extensionHere s\<close> says that the pattern matches the whole of \<open>s\<close>; \<open>replace\<close> with
  a pattern that is not global rewrites the leftmost match and returns the string as it
  is when there is none.
\<close>

definition extensionHere :: "string \<Rightarrow> bool" where
  "extensionHere s =
     (case s of
        [] \<Rightarrow> False
      | c # r \<Rightarrow> c = CHR ''.'' \<and> r \<noteq> [] \<and> list_all (\<lambda>d. d \<noteq> CHR ''/'' \<and> d \<noteq> CHR ''.'') r)"

fun replaceExtension :: "string \<Rightarrow> string" where
  "replaceExtension [] = []"
| "replaceExtension (c # r) =
     (if extensionHere (c # r) then ''.webp'' else c # replaceExtension r)"

subsection \<open>Data model\<close>

text \<open>
  A DOM \<open>File\<close> is its \<open>name\<close>, \<open>type\<close> and \<open>size\<close>; the bytes themselves are only
  ever handed to the browser. \<open>FileData\<close>, \<open>ConversionResult\<close> and \<open>Stats\<close> are the
  three interfaces of the source. The fields \<open>id\<close>, \<open>file\<close>, \<open>size\<close>, \<open>preview\<close> of
  \<open>FileData\<close> carry the prefix \<open>fd_\<close>, and the field \<open>compressionRatio\<close> of \<open>Stats\<close>
  is \<open>overallRatio\<close>, to keep the names apart.
\<close>

record File =
  file_name :: string
  file_type :: string
  file_size :: nat

record FileData =
  fd_id :: string
  fd_file :: File
  fd_size :: nat
  fd_preview :: string

record ConversionResult =
  original :: File
  converted :: File
  originalSize :: nat
  convertedSize :: nat
  compressionRatio :: string

record Stats =
  totalFiles :: nat
  totalOriginalSize :: nat
  totalConvertedSize :: nat
  totalSavings :: int
  overallRatio :: string

text \<open>The six \<open>useState\<close> cells of the component.\<close>

record AppState =
  files :: "FileData list"
  converting :: bool
  convertedFiles :: "ConversionResult list"
  quality :: nat
  progress :: number
  stats :: "Stats option"

definition initialState :: AppState where
  "initialState =
     \<lparr>files = [], converting = False, convertedFiles = [], quality = 95,
      progress = Fin 0, stats = None\<rparr>"

text \<open>
  What the callbacks ask of the browser. \<open>executorThrows f\<close>: one of the calls made
  directly in the Promise executor of \<open>convertToWebP\<close> (\<open>createElement\<close>,
  \<open>getContext\<close>, \<open>new Image\<close>, \<open>createObjectURL\<close>) throws. \<open>imageLoads f\<close>: the image
  decodes, so \<open>img.onload\<close> runs and reaches \<open>canvas.toBlob\<close>. \<open>toBlob f q\<close>: the size
  of the blob that \<open>canvas.toBlob\<close> passes to its callback for quality fraction \<open>q\<close>,
  or \<open>None\<close> when it passes \<open>null\<close>. \<open>randomId k\<close> and \<open>createObjectURL k\<close>: the
  string that \<open>Math.random().toString(36).substr(2, 9)\<close> and \<open>URL.createObjectURL\<close>
  give for the \<open>k\<close>-th accepted file of one selection. \<open>numberToString\<close>:
  Number::toString on doubles of magnitude \<open>10^21\<close> or more. \<open>mathLog x\<close>: the
  double that \<open>Math.log\<close> returns for a positive finite \<open>x\<close>; ECMA-262 leaves it to
  the engine as an approximation of the natural logarithm.
\<close>

record Host =
  executorThrows :: "File \<Rightarrow> bool"
  imageLoads :: "File \<Rightarrow> bool"
  toBlob :: "File \<Rightarrow> number \<Rightarrow> nat option"
  randomId :: "nat \<Rightarrow> string"
  createObjectURL :: "nat \<Rightarrow> string"
  numberToString :: "rat \<Rightarrow> string"
  mathLog :: "rat \<Rightarrow> rat"

subsection \<open>convertToWebP\<close>

text \<open>
  The state in which an awaited promise is found: resolved with a value, rejected, or
  never settled.
\<close>

datatype 'a promise = Resolved 'a | Rejected | Pending

text \<open>
  \<open>((a - b) / a * 100).toFixed(1)\<close> for two byte counts, as both the per-file and the
  aggregate ratio are computed.
\<close>

definition ratioText :: "Host \<Rightarrow> nat \<Rightarrow> nat \<Rightarrow> string" where
  "ratioText H a b =
     toFixed (numberToString H) 1
       (js_mul (js_div (Fin (of_int (int a - int b))) (Fin (of_nat a))) (Fin 100))"

text \<open>
  The promise is created with a \<open>resolve\<close> function only. An exception in the executor
  rejects it. The source sets \<open>img.onload\<close> and no \<open>img.onerror\<close>; when the image does
  not load, nothing ever settles the promise. In the \<open>toBlob\<close> callback,
  \<open>if (!blob) return;\<close> leaves without settling it as well.
\<close>

definition convertToWebP :: "Host \<Rightarrow> File \<Rightarrow> nat \<Rightarrow> ConversionResult promise" where
  "convertToWebP H file q =
     (if executorThrows H file then Rejected
      else if \<not> imageLoads H file then Pending
      else case toBlob H file (js_div (Fin (of_nat q)) (Fin 100)) of
             None \<Rightarrow> Pending
           | Some blobSize \<Rightarrow>
               Resolved
                 \<lparr>original = file,
                  converted = \<lparr>file_name = replaceExtension (file_name file),
                               file_type = ''image/webp'',
                               file_size = blobSize\<rparr>,
                  originalSize = file_size file,
                  convertedSize = blobSize,
                  compressionRatio = ratioText H (file_size file) blobSize\<rparr>)"

subsection \<open>handleFileSelect and removeFile\<close>

definition acceptable :: "File \<Rightarrow> bool" where
  "acceptable file =
     (startsWith (file_type file) ''image/''
      \<and> \<not> endsWith (toLowerCase (file_name file)) ''.webp'')"

definition handleFileSelect :: "Host \<Rightarrow> File list option \<Rightarrow> AppState \<Rightarrow> AppState" where
  "handleFileSelect H selectedFiles s =
     (case selectedFiles of
        None \<Rightarrow> s
      | Some sel \<Rightarrow>
          let imageFiles = filter acceptable sel;
              fileData = map (\<lambda>(k, file).
                                \<lparr>fd_id = randomId H k, fd_file = file,
                                 fd_size = file_size file,
                                 fd_preview = createObjectURL H k\<rparr>)
                             (enumerate 0 imageFiles)
          in s\<lparr>files := files s @ fileData\<rparr>)"

definition removeFile :: "string \<Rightarrow> AppState \<Rightarrow> AppState" where
  "removeFile fileId s = s\<lparr>files := filter (\<lambda>f. fd_id f \<noteq> fileId) (files s)\<rparr>"

subsection \<open>convertAllFiles\<close>

text \<open>
  The variables of the loop: the locals \<open>results\<close>, \<open>totalOriginalSize\<close> and
  \<open>totalConvertedSize\<close> of the source (here \<open>results\<close>, \<open>sumOriginal\<close>,
  \<open>sumConverted\<close>), the component state, and the list of the states the component has
  gone through since the call, oldest first.
\<close>

record LoopVars =
  results :: "ConversionResult list"
  sumOriginal :: nat
  sumConverted :: nat
  state :: AppState
  history :: "AppState list"

text \<open>
  One pass of \<open>for (let i = 0; i < files.length; i++)\<close> per recursive call. \<open>fs\<close> and
  \<open>q\<close> are the \<open>files\<close> and \<open>quality\<close> the callback closed over. A resolved promise
  runs the rest of the \<open>try\<close> block; a rejected one runs the \<open>catch\<close> block, which
  only logs; a promise that never settles leaves the function suspended at the
  \<open>await\<close>, and the flag returned is \<open>False\<close>.
\<close>

function convertLoop ::
  "(File \<Rightarrow> nat \<Rightarrow> ConversionResult promise) \<Rightarrow> FileData list \<Rightarrow> nat \<Rightarrow> nat \<Rightarrow> LoopVars
     \<Rightarrow> LoopVars \<times> bool" where
  "convertLoop conv fs q i v =
     (if i < length fs then
        (case conv (fd_file (fs ! i)) q of
           Resolved result \<Rightarrow>
             (let s' = (state v)
                    \<lparr>progress := js_mul (js_div (Fin (of_nat (i + 1))) (Fin (of_nat (length fs))))
                                        (Fin 100),
                     convertedFiles := convertedFiles (state v) @ [result]\<rparr>
              in convertLoop conv fs q (i + 1)
                   (v\<lparr>results := results v @ [result],
                      sumOriginal := sumOriginal v + originalSize result,
                      sumConverted := sumConverted v + convertedSize result,
                      state := s',
                      history := history v @ [s']\<rparr>))
         | Rejected \<Rightarrow> convertLoop conv fs q (i + 1) v
         | Pending \<Rightarrow> (v, False))
      else (v, True))"
  by pat_completeness auto
termination
  by (relation "measure (\<lambda>(conv, fs, q, i, v). length fs - i)") auto

declare convertLoop.simps [simp del]

text \<open>
  How a call of \<open>convertAllFiles\<close> ends: \<open>Skipped\<close> at the first line (empty working
  set), \<open>Completed\<close> after \<open>setConverting(false)\<close>, or \<open>Stalled\<close> at an \<open>await\<close> that
  never returns.
\<close>

datatype outcome = Skipped | Completed | Stalled

definition makeStats :: "Host \<Rightarrow> nat \<Rightarrow> nat \<Rightarrow> nat \<Rightarrow> Stats" where
  "makeStats H n a b =
     \<lparr>totalFiles = n, totalOriginalSize = a, totalConvertedSize = b,
      totalSavings = int a - int b, overallRatio = ratioText H a b\<rparr>"

definition startBatch :: "AppState \<Rightarrow> AppState" where
  "startBatch s = s\<lparr>converting := True, progress := Fin 0, convertedFiles := []\<rparr>"

definition convertAllFiles :: "Host \<Rightarrow> AppState \<Rightarrow> AppState list \<times> outcome" where
  "convertAllFiles H s =
     (if length (files s) = 0 then ([], Skipped)
      else
        let s0 = startBatch s;
            (v, finished) =
               convertLoop (convertToWebP H) (files s) (quality s) 0
                 \<lparr>results = [], sumOriginal = 0, sumConverted = 0, state = s0, history = [s0]\<rparr>
        in if finished then
             (history v @
                [(state v)\<lparr>stats := Some (makeStats H (length (files s)) (sumOriginal v)
                                                    (sumConverted v)),
                           converting := False\<rparr>],
              Completed)
           else (history v, Stalled))"

text \<open>The state the component is left in by a call that went through \<open>hist\<close>.\<close>

definition finalState :: "AppState \<Rightarrow> AppState list \<times> outcome \<Rightarrow> AppState" where
  "finalState s r = last (s # fst r)"

text \<open>
  The button that calls \<open>convertAllFiles\<close> is rendered only under
  \<open>files.length > 0\<close> and carries \<open>disabled={converting}\<close>: a click reaches the
  callback only when the working set is non-empty and no batch is running.
\<close>

definition clickConvert :: "Host \<Rightarrow> AppState \<Rightarrow> AppState list \<times> outcome" where
  "clickConvert H s =
     (if 0 < length (files s) \<and> \<not> converting s then convertAllFiles H s else ([], Skipped))"

subsection \<open>formatFileSize\<close>

definition sizes :: "string list" where
  "sizes = [''Bytes'', ''KB'', ''MB'', ''GB'']"

text \<open>
  \<open>Math.log\<close> of a Number: \<open>NaN\<close> for a negative argument, minus infinity for zero,
  and the engine's double otherwise. \<open>Math.floor\<close> keeps \<open>NaN\<close> and the infinities.
\<close>

definition Math_log :: "Host \<Rightarrow> rat \<Rightarrow> number" where
  "Math_log H x = (if x < 0 then NaN else if x = 0 then NegInf else Fin (mathLog H x))"

definition Math_floor :: "number \<Rightarrow> number" where
  "Math_floor x = (case x of Fin v \<Rightarrow> Fin (of_int \<lfloor>v\<rfloor>) | _ \<Rightarrow> x)"

text \<open>\<open>Math.floor(Math.log(bytes) / Math.log(k))\<close> with \<open>k = 1024\<close>, in doubles.\<close>

definition unitIndex :: "Host \<Rightarrow> int \<Rightarrow> number" where
  "unitIndex H bytes = Math_floor (js_div (Math_log H (of_int bytes)) (Math_log H 1024))"

text \<open>\<open>Math.pow(1024, i)\<close> for the values \<open>unitIndex\<close> yields.\<close>

definition pow1024 :: "number \<Rightarrow> number" where
  "pow1024 i =
     (case i of
        Fin n \<Rightarrow> Fin (if 0 \<le> n then 1024 ^ nat \<lfloor>n\<rfloor> else 1 / 1024 ^ nat (- \<lfloor>n\<rfloor>))
      | NaN \<Rightarrow> NaN
      | PosInf \<Rightarrow> PosInf
      | NegInf \<Rightarrow> Fin 0)"

text \<open>
  \<open>sizes[i]\<close> as it appears in a string concatenation: the element when \<open>i\<close> is an
  index of the array, and the text \<open>undefined\<close> otherwise.
\<close>

definition unitText :: "number \<Rightarrow> string" where
  "unitText i =
     (case i of
        Fin n \<Rightarrow> if 0 \<le> n \<and> of_int \<lfloor>n\<rfloor> = n \<and> nat \<lfloor>n\<rfloor> < length sizes
                 then sizes ! nat \<lfloor>n\<rfloor> else ''undefined''
      | _ \<Rightarrow> ''undefined'')"

text \<open>
  \<open>parseFloat(t)\<close> followed by the conversion of the Number back to a string, for a
  string \<open>t\<close> produced by \<open>toFixed(2)\<close>: zeros at the end of the fraction go, then a
  point left at the end goes, and minus zero is written \<open>0\<close>. \<open>NaN\<close> stays \<open>NaN\<close>.
\<close>

definition reparse :: "string \<Rightarrow> string" where
  "reparse t =
     (if CHR ''.'' \<in> set t then
        let u = rev (dropWhile (\<lambda>c. c = CHR ''0'') (rev t));
            w = (if u \<noteq> [] \<and> last u = CHR ''.'' then butlast u else u)
        in if w = ''-0'' then ''0'' else w
      else t)"

definition formatFileSize :: "Host \<Rightarrow> int \<Rightarrow> string" where
  "formatFileSize H bytes =
     (if bytes = 0 then ''0 Bytes''
      else
        let i = unitIndex H bytes
        in reparse (toFixed (numberToString H) 2 (js_div (Fin (of_int bytes)) (pow1024 i)))
           @ '' '' @ unitText i)"

subsection \<open>Vocabulary of the statements\<close>

text \<open>
  For a converter \<open>conv\<close> and a quality \<open>q\<close>: an item settles when its promise is
  resolved or rejected; \<open>successes\<close> collects, in order, the values of the resolved
  promises of a list of items.
\<close>

definition settles :: "(File \<Rightarrow> nat \<Rightarrow> ConversionResult promise) \<Rightarrow> nat \<Rightarrow> FileData \<Rightarrow> bool" where
  "settles conv q fd = (conv (fd_file fd) q \<noteq> Pending)"

definition resolvedValue ::
  "(File \<Rightarrow> nat \<Rightarrow> ConversionResult promise) \<Rightarrow> nat \<Rightarrow> FileData \<Rightarrow> ConversionResult option" where
  "resolvedValue conv q fd = (case conv (fd_file fd) q of Resolved r \<Rightarrow> Some r | _ \<Rightarrow> None)"

definition successes ::
  "(File \<Rightarrow> nat \<Rightarrow> ConversionResult promise) \<Rightarrow> nat \<Rightarrow> FileData list \<Rightarrow> ConversionResult list" where
  "successes conv q fds = List.map_filter (resolvedValue conv q) fds"

text \<open>
  A logarithm for the examples: the doubles that \<open>Math.log\<close> returns at 1, 1024,
  1536, \<open>1024^4 - 1\<close> and \<open>1024^4\<close> (0, 6.931471805599453, 7.336936913707618,
  27.725887222396903 and 27.725887222397812), each held up to the next of these
  arguments.
\<close>

definition sampleLog :: "rat \<Rightarrow> rat" where
  "sampleLog x =
     (if x < 1024 then 0
      else if x < 1536 then 7804143460206699 / 1125899906842624
      else if x < 1024 ^ 4 - 1 then 516291036728351 / 70368744177664
      else if x < 1024 ^ 4 then 7804143460206443 / 281474976710656
      else 7804143460206699 / 281474976710656)"

text \<open>
  A browser for the examples: the file named \<open>throws.png\<close> makes the executor throw,
  \<open>corrupt.png\<close> does not decode, \<open>blank.png\<close> encodes to no blob, and every other
  image encodes to two fifths of its size. \<open>plainHost\<close> is the same browser with an
  executor that never throws and a decoder that refuses empty files.
\<close>

definition sampleHost :: Host where
  "sampleHost =
     \<lparr>executorThrows = (\<lambda>f. file_name f = ''throws.png''),
      imageLoads = (\<lambda>f. file_name f \<noteq> ''corrupt.png''),
      toBlob = (\<lambda>f q. if file_name f = ''blank.png'' then None
                       else Some (file_size f * 2 div 5)),
      randomId = (\<lambda>k. ''id'' @ digits k),
      createObjectURL = (\<lambda>k. ''blob:'' @ digits k),
      numberToString = (\<lambda>v. ''1e+21''),
      mathLog = sampleLog\<rparr>"


definition png :: "string \<Rightarrow> nat \<Rightarrow> File" where
  "png n sz = \<lparr>file_name = n, file_type = ''image/png'', file_size = sz\<rparr>"

definition item :: "string \<Rightarrow> File \<Rightarrow> FileData" where
  "item i f = \<lparr>fd_id = i, fd_file = f, fd_size = file_size f, fd_preview = ''blob:'' @ i\<rparr>"

definition workingSet :: "FileData list \<Rightarrow> AppState" where
  "workingSet fds = initialState\<lparr>files := fds\<rparr>"

text \<open>
  The loop variables after the \<open>try\<close> block has run to its end for the result \<open>r\<close> of
  item \<open>i\<close> out of \<open>n\<close>.
\<close>

definition afterSuccess :: "nat \<Rightarrow> nat \<Rightarrow> ConversionResult \<Rightarrow> LoopVars \<Rightarrow> LoopVars" where
  "afterSuccess n i r v =
     (let s' = (state v)
            \<lparr>progress := js_mul (js_div (Fin (of_nat (i + 1))) (Fin (of_nat n))) (Fin 100),
             convertedFiles := convertedFiles (state v) @ [r]\<rparr>
      in v\<lparr>results := results v @ [r],
           sumOriginal := sumOriginal v + originalSize r,
           sumConverted := sumConverted v + convertedSize r,
           state := s',
           history := history v @ [s']\<rparr>)"

text \<open>The loop variables on entry to the loop.\<close>

definition loopStart :: "AppState \<Rightarrow> LoopVars" where
  "loopStart s = \<lparr>results = [], sumOriginal = 0, sumConverted = 0, state = startBatch s,
      history = [startBatch s]\<rparr>"

text \<open>
  Working sets for the examples: three images of the sizes in the scenario of the
  specification; two small images; two images of which the last, or the first, cannot
  be decoded, encodes to nothing or makes the executor throw.
\<close>

definition threeImages :: AppState where
  "threeImages = workingSet [item ''a'' (png ''a.png'' 1000000), item ''b'' (png ''b.png'' 500000),
      item ''c'' (png ''c.png'' 250000)]"

definition twoImages :: AppState where
  "twoImages = workingSet [item ''a'' (png ''a.png'' 1000), item ''b'' (png ''b.png'' 2000)]"

definition lastCorrupt :: AppState where
  "lastCorrupt = workingSet [item ''a'' (png ''a.png'' 1000), item ''b'' (png ''corrupt.png'' 2000)]"

definition lastThrows :: AppState where
  "lastThrows = workingSet [item ''a'' (png ''a.png'' 1000), item ''b'' (png ''throws.png'' 2000)]"

definition firstCorrupt :: AppState where
  "firstCorrupt = workingSet [item ''a'' (png ''corrupt.png'' 1000), item ''b'' (png ''b.png'' 2000)]"

definition firstBlank :: AppState where
  "firstBlank = workingSet [item ''a'' (png ''blank.png'' 1000), item ''b'' (png ''b.png'' 2000)]"

text \<open>
  \<open>midBatch\<close> is the component in the middle of converting \<open>twoImages\<close>, after the
  first image and before the second; \<open>secondRound\<close> is the component after that batch
  has been completed and the first image has then been removed from the working set,
  the two results and the statistics of the batch still in place.
\<close>

definition midBatch :: AppState where
  "midBatch = fst (convertAllFiles sampleHost twoImages) ! 1"

definition secondRound :: AppState where
  "secondRound = removeFile ''a'' (finalState twoImages (convertAllFiles sampleHost twoImages))"

text \<open>
  The order of Numbers, as \<open><=\<close> compares them: \<open>NaN\<close> is not comparable to
  anything. \<open>progressAfter k n\<close> is the value \<open>(k / n) * 100\<close> that the loop hands to
  \<open>setProgress\<close> after item \<open>k\<close> of \<open>n\<close>.
\<close>

fun num_le :: "number \<Rightarrow> number \<Rightarrow> bool" where
  "num_le (Fin x) (Fin y) = (x \<le> y)"
| "num_le NaN _ = False"
| "num_le _ NaN = False"
| "num_le NegInf _ = True"
| "num_le _ PosInf = True"
| "num_le _ _ = False"

definition progressAfter :: "nat \<Rightarrow> nat \<Rightarrow> number" where
  "progressAfter k n = js_mul (js_div (Fin (of_nat k)) (Fin (of_nat n))) (Fin 100)"

section \<open>Rounding to a double\<close>

text \<open>
  \<open>binade\<close> finds the power of two at or below a positive rational, so that \<open>fl\<close>
  scales the significand into the 53-bit range; \<open>fl\<close> is then within half a unit in
  the last place of its argument, and monotone.
\<close>

lemma pow2_powi: "pow2 e = 2 powi e"
  by (simp add: pow2_def power_int_def power_one_over inverse_eq_divide)

lemma of_int_two_power_rat: "(of_int (2 ^ n) :: rat) = 2 ^ n"
  by simp

lemma bitlen_rat_bounds:
  assumes "0 < p"
  shows "2 powi (bitlen p - 1) \<le> (of_int p :: rat)" "(of_int p :: rat) < 2 powi bitlen p"
proof -
  have b: "1 \<le> bitlen p" using assms by (simp add: bitlen_alt_def)
  from bitlen_bounds [OF assms]
  have "2 ^ nat (bitlen p - 1) \<le> p" "p < 2 ^ nat (bitlen p)" by simp_all
  then have "(of_int (2 ^ nat (bitlen p - 1)) :: rat) \<le> of_int p"
    "(of_int p :: rat) < of_int (2 ^ nat (bitlen p))"
    by (simp_all only: of_int_le_iff of_int_less_iff)
  then show "2 powi (bitlen p - 1) \<le> (of_int p :: rat)" "(of_int p :: rat) < 2 powi bitlen p"
    using b by (simp_all add: power_int_nonneg_exp)
qed

lemma binade_bounds:
  assumes "0 < x"
  shows "2 powi binade x \<le> x" "x < 2 powi (binade x + 1)"
proof -
  obtain p q where pq: "quotient_of x = (p, q)" by (cases "quotient_of x") blast
  have q: "0 < q" using quotient_of_denom_pos [OF pq] .
  have x: "x = of_int p / of_int q" using quotient_of_div [OF pq] .
  have p: "0 < p" using assms q x by (simp add: zero_less_divide_iff)
  let ?d = "bitlen p - bitlen q"
  note bp = bitlen_rat_bounds [OF p] and bq = bitlen_rat_bounds [OF q]
  have qpos: "(0 :: rat) < of_int q" using q by simp
  have ppos: "(0 :: rat) \<le> of_int p" using p by simp
  have "x < 2 powi bitlen p / 2 powi (bitlen q - 1)"
    unfolding x using bp(2) bq(1) ppos
    by (intro frac_less) simp_all
  also have "\<dots> = 2 powi (bitlen p - (bitlen q - 1))"
    by (rule power_int_diff [symmetric]) simp
  also have "\<dots> = 2 powi (?d + 1)"
    by (rule arg_cong [where f = "\<lambda>e. 2 powi e"]) simp
  finally have up: "x < 2 powi (?d + 1)" .
  have "(2 :: rat) powi (?d - 1) = 2 powi (bitlen p - 1 - bitlen q)"
    by (rule arg_cong [where f = "\<lambda>e. 2 powi e"]) simp
  also have "\<dots> = 2 powi (bitlen p - 1) / (2 powi bitlen q :: rat)"
    by (rule power_int_diff) simp
  also have "\<dots> \<le> x"
    unfolding x using bp(1) bq(2) qpos ppos
    by (intro frac_le) (simp_all add: less_imp_le)
  finally have lo: "2 powi (?d - 1) \<le> x" .
  have b: "binade x = (if 2 powi ?d \<le> x then ?d else ?d - 1)"
    by (simp add: binade_def pq pow2_powi Let_def)
  show "2 powi binade x \<le> x" using lo by (simp add: b)
  show "x < 2 powi (binade x + 1)" using up by (auto simp add: b not_le)
qed

lemma round_half_even_floor:
  "\<lfloor>x\<rfloor> \<le> round_half_even x" "round_half_even x \<le> \<lfloor>x\<rfloor> + 1"
  by (simp_all add: round_half_even_def Let_def)

lemma round_half_even_of_int: "round_half_even (of_int n) = n"
  by (simp add: round_half_even_def Let_def)

lemma round_half_even_ge:
  assumes "of_int n \<le> x"
  shows "n \<le> round_half_even x"
proof -
  have "n \<le> \<lfloor>x\<rfloor>" using assms by (simp add: le_floor_iff)
  then show ?thesis using round_half_even_floor(1) [of x] by linarith
qed

lemma round_half_even_le:
  assumes "x \<le> of_int n"
  shows "round_half_even x \<le> n"
proof (cases "x = of_int n")
  case True
  then show ?thesis by (simp add: round_half_even_of_int)
next
  case False
  with assms have "x < of_int n" by simp
  then have "\<lfloor>x\<rfloor> < n" by (simp add: floor_less_iff)
  then show ?thesis using round_half_even_floor(2) [of x] by linarith
qed

lemma round_half_even_mono:
  assumes "x \<le> y"
  shows "round_half_even x \<le> round_half_even y"
proof (cases "\<lfloor>x\<rfloor> < \<lfloor>y\<rfloor>")
  case True
  then show ?thesis
    using round_half_even_floor(2) [of x] round_half_even_floor(1) [of y] by linarith
next
  case False
  then have "\<lfloor>x\<rfloor> = \<lfloor>y\<rfloor>" using floor_mono [OF assms] by linarith
  then show ?thesis using assms
    by (auto simp add: round_half_even_def Let_def)
qed

lemma fl_pos_eq:
  "0 < x \<Longrightarrow> fl x = of_int (round_half_even (x / 2 powi (binade x - 52))) * 2 powi (binade x - 52)"
  by (simp add: fl_def Let_def pow2_powi)

lemma fl_nonneg: "0 \<le> x \<Longrightarrow> 0 \<le> fl x"
proof (cases "x = 0")
  case True
  then show ?thesis by (simp add: fl_def)
next
  case False
  assume "0 \<le> x"
  with False have x: "0 < x" by simp
  have "(of_int 0 :: rat) \<le> x / 2 powi (binade x - 52)" using x by simp
  then have "0 \<le> round_half_even (x / 2 powi (binade x - 52))"
    by (rule round_half_even_ge)
  then show ?thesis by (simp add: fl_pos_eq [OF x])
qed

lemma fl_binade_bounds:
  assumes "0 < x"
  shows "2 powi binade x \<le> fl x" "fl x \<le> 2 powi (binade x + 1)"
proof -
  let ?u = "2 powi (binade x - 52) :: rat"
  have u: "0 < ?u" by simp
  have e1: "2 powi binade x = of_int (2 ^ 52) * ?u"
  proof -
    have "(2 :: rat) powi binade x = 2 powi (52 + (binade x - 52))"
      by (rule arg_cong [where f = "\<lambda>e. 2 powi e"]) simp
    also have "\<dots> = 2 powi 52 * ?u" by (rule power_int_add) simp
    finally show ?thesis by simp
  qed
  have e2: "2 powi (binade x + 1) = of_int (2 ^ 53) * ?u"
  proof -
    have "(2 :: rat) powi (binade x + 1) = 2 powi (53 + (binade x - 52))"
      by (rule arg_cong [where f = "\<lambda>e. 2 powi e"]) simp
    also have "\<dots> = 2 powi 53 * ?u" by (rule power_int_add) simp
    finally show ?thesis by simp
  qed
  have "of_int (2 ^ 52) \<le> x / ?u"
    using binade_bounds(1) [OF assms] u unfolding e1 by (simp add: pos_le_divide_eq)
  then have "2 ^ 52 \<le> round_half_even (x / ?u)" by (rule round_half_even_ge)
  then have "(of_int (2 ^ 52) :: rat) \<le> of_int (round_half_even (x / ?u))"
    by (simp only: of_int_le_iff)
  then show "2 powi binade x \<le> fl x"
    unfolding e1 fl_pos_eq [OF assms] using u by (intro mult_right_mono) simp_all
  have "x / ?u \<le> of_int (2 ^ 53)"
    using binade_bounds(2) [OF assms] u unfolding e2 by (simp add: pos_divide_le_eq less_imp_le)
  then have "round_half_even (x / ?u) \<le> 2 ^ 53" by (rule round_half_even_le)
  then have "(of_int (round_half_even (x / ?u)) :: rat) \<le> of_int (2 ^ 53)"
    by (simp only: of_int_le_iff)
  then show "fl x \<le> 2 powi (binade x + 1)"
    unfolding e2 fl_pos_eq [OF assms] using u by (intro mult_right_mono) simp_all
qed

lemma binade_mono:
  assumes "0 < x" "x \<le> y"
  shows "binade x \<le> binade y"
proof (rule ccontr)
  assume "\<not> binade x \<le> binade y"
  then have "binade y + 1 \<le> binade x" by simp
  then have "(2 :: rat) powi (binade y + 1) \<le> 2 powi binade x"
    by (intro power_int_increasing) simp_all
  moreover have "0 < y" using assms by simp
  ultimately have "y < x"
    using binade_bounds(2) [of y] binade_bounds(1) [OF assms(1)] by linarith
  with assms(2) show False by simp
qed

lemma fl_mono_pos:
  assumes "0 < x" "x \<le> y"
  shows "fl x \<le> fl y"
proof -
  have y: "0 < y" using assms by simp
  show ?thesis
  proof (cases "binade x = binade y")
    case True
    let ?u = "2 powi (binade y - 52) :: rat"
    have "x / ?u \<le> y / ?u" using assms(2) by (simp add: divide_right_mono)
    then have "round_half_even (x / ?u) \<le> round_half_even (y / ?u)"
      by (rule round_half_even_mono)
    then have "(of_int (round_half_even (x / ?u)) :: rat) \<le> of_int (round_half_even (y / ?u))"
      by (simp only: of_int_le_iff)
    then show ?thesis
      unfolding fl_pos_eq [OF assms(1)] fl_pos_eq [OF y] True
      by (intro mult_right_mono) simp_all
  next
    case False
    with binade_mono [OF assms] have "binade x + 1 \<le> binade y" by simp
    then have "(2 :: rat) powi (binade x + 1) \<le> 2 powi binade y"
      by (intro power_int_increasing) simp_all
    then show ?thesis
      using fl_binade_bounds(2) [OF assms(1)] fl_binade_bounds(1) [OF y] by linarith
  qed
qed

lemma fl_mono: "0 \<le> x \<Longrightarrow> x \<le> y \<Longrightarrow> fl x \<le> fl y"
  using fl_mono_pos [of x y] fl_nonneg [of y] by (cases "x = 0") (simp_all add: fl_def)

lemma round_half_even_error: "\<bar>of_int (round_half_even x) - x\<bar> \<le> 1 / 2"
proof -
  have "of_int \<lfloor>x\<rfloor> \<le> x" "x < of_int \<lfloor>x\<rfloor> + 1" by linarith+
  then show ?thesis
    by (auto simp add: round_half_even_def Let_def abs_le_iff not_less)
qed

lemma fl_error:
  assumes "0 < x"
  shows "\<bar>fl x - x\<bar> \<le> 2 powi (binade x - 53)"
proof -
  let ?u = "2 powi (binade x - 52) :: rat"
  have u: "0 < ?u" by simp
  have h: "?u / 2 = 2 powi (binade x - 53)"
  proof -
    have "(2 :: rat) powi (binade x - 53) = 2 powi (binade x - 52 - 1)"
      by (rule arg_cong [where f = "\<lambda>e. 2 powi e"]) simp
    also have "\<dots> = ?u / 2 powi 1" by (rule power_int_diff) simp
    finally show ?thesis by simp
  qed
  have "fl x - x = (of_int (round_half_even (x / ?u)) - x / ?u) * ?u"
    using u by (simp add: fl_pos_eq [OF assms] algebra_simps)
  then have "\<bar>fl x - x\<bar> = \<bar>of_int (round_half_even (x / ?u)) - x / ?u\<bar> * ?u"
    using u by (simp add: abs_mult)
  also have "\<dots> \<le> 1 / 2 * ?u"
    using round_half_even_error [of "x / ?u"] u by (intro mult_right_mono) simp_all
  finally show ?thesis using h by simp
qed

text \<open>Small integers are doubles, and rounding is odd.\<close>

lemma fl_0: "fl 0 = 0"
  by (simp add: fl_def)

lemma fl_1: "fl 1 = 1"
  by code_simp

lemma fl_4: "fl 4 = 4"
  by code_simp




section \<open>Strings and acceptance\<close>

lemma startsWith_prefix: "startsWith s p \<longleftrightarrow> prefix p s"
  unfolding startsWith_def
  by (metis append_eq_conv_conj prefix_def take_is_prefix)

lemma endsWith_suffix: "endsWith s p \<longleftrightarrow> suffix p s"
proof
  assume "endsWith s p"
  then have "s = take (length s - length p) s @ p"
    unfolding endsWith_def by (metis append_take_drop_id)
  then show "suffix p s" unfolding suffix_def by blast
next
  assume "suffix p s"
  then obtain t where "s = t @ p" unfolding suffix_def by blast
  then show "endsWith s p" unfolding endsWith_def by simp
qed

text \<open>
  Lowering the whole name and then looking at its end is the same as looking for an
  ending that is \<open>p\<close> up to the case of its letters.
\<close>

lemma endsWith_toLowerCase:
  "endsWith (toLowerCase s) p \<longleftrightarrow> (\<exists>stem ext. s = stem @ ext \<and> toLowerCase ext = p)"
proof
  assume "endsWith (toLowerCase s) p"
  then obtain t where t: "map toLowerChar s = t @ p"
    unfolding endsWith_suffix suffix_def toLowerCase_def by blast
  then obtain stem ext where "s = stem @ ext" "map toLowerChar ext = p"
    by (metis map_eq_append_conv)
  then show "\<exists>stem ext. s = stem @ ext \<and> toLowerCase ext = p"
    unfolding toLowerCase_def by blast
next
  assume "\<exists>stem ext. s = stem @ ext \<and> toLowerCase ext = p"
  then show "endsWith (toLowerCase s) p"
    unfolding endsWith_suffix suffix_def toLowerCase_def by auto
qed

lemma acceptable_iff:
  "acceptable f \<longleftrightarrow>
     prefix ''image/'' (file_type f)
     \<and> \<not> (\<exists>stem ext. file_name f = stem @ ext \<and> toLowerCase ext = ''.webp'')"
  unfolding acceptable_def startsWith_prefix endsWith_toLowerCase ..

lemma fd_file_fileData:
  "map (fd_file \<circ> (\<lambda>(k, file). \<lparr>fd_id = g k, fd_file = file, fd_size = file_size file,
        fd_preview = h k\<rparr>)) (enumerate n xs) = xs"
  by (induction xs arbitrary: n) simp_all

text \<open>
  C7. Of the files offered to \<open>handleFileSelect\<close>, exactly those whose media type begins
  with \<open>image/\<close> and whose name does not end in \<open>.webp\<close>, in any mix of upper and lower
  case, are appended to the working set, in the order offered. The others are dropped
  and leave no trace: nothing but \<open>files\<close> changes, and a selection of \<open>null\<close> changes
  nothing.
\<close>

theorem handleFileSelect_accepts:
  "map fd_file (files (handleFileSelect H (Some sel) s))
     = map fd_file (files s)
       @ filter (\<lambda>f. prefix ''image/'' (file_type f)
                     \<and> \<not> (\<exists>stem ext. file_name f = stem @ ext \<and> toLowerCase ext = ''.webp'')) sel
   \<and> handleFileSelect H (Some sel) s = s\<lparr>files := files (handleFileSelect H (Some sel) s)\<rparr>
   \<and> handleFileSelect H None s = s"
proof -
  have "filter acceptable sel = filter (\<lambda>f. prefix ''image/'' (file_type f)
                     \<and> \<not> (\<exists>stem ext. file_name f = stem @ ext \<and> toLowerCase ext = ''.webp'')) sel"
    by (rule filter_cong) (simp_all add: acceptable_iff)
  then show ?thesis
    by (simp add: handleFileSelect_def Let_def fd_file_fileData)
qed

theorem handleFileSelect_accepts_witness:
  "map fd_file (files (handleFileSelect sampleHost
       (Some [png ''a.png'' 10, png ''b.WEBP'' 20,
              \<lparr>file_name = ''notes.txt'', file_type = ''text/plain'', file_size = 3\<rparr>,
              png ''c.webp.png'' 30])
       (workingSet [item ''x'' (png ''old.png'' 5)])))
   = [png ''old.png'' 5, png ''a.png'' 10, png ''c.webp.png'' 30]"
proof -
  have a1: "acceptable (png ''a.png'' 10)" by code_simp
  have a2: "\<not> acceptable (png ''b.WEBP'' 20)" by code_simp
  have a3: "\<not> acceptable \<lparr>file_name = ''notes.txt'', file_type = ''text/plain'', file_size = 3\<rparr>"
    by code_simp
  have a4: "acceptable (png ''c.webp.png'' 30)" by code_simp
  have "map fd_file (files (handleFileSelect sampleHost
       (Some [png ''a.png'' 10, png ''b.WEBP'' 20,
              \<lparr>file_name = ''notes.txt'', file_type = ''text/plain'', file_size = 3\<rparr>,
              png ''c.webp.png'' 30])
       (workingSet [item ''x'' (png ''old.png'' 5)])))
     = map fd_file (files (workingSet [item ''x'' (png ''old.png'' 5)]))
       @ filter acceptable [png ''a.png'' 10, png ''b.WEBP'' 20,
              \<lparr>file_name = ''notes.txt'', file_type = ''text/plain'', file_size = 3\<rparr>,
              png ''c.webp.png'' 30]"
    using handleFileSelect_accepts [of sampleHost "[png ''a.png'' 10, png ''b.WEBP'' 20,
              \<lparr>file_name = ''notes.txt'', file_type = ''text/plain'', file_size = 3\<rparr>,
              png ''c.webp.png'' 30]" "workingSet [item ''x'' (png ''old.png'' 5)]"]
    unfolding acceptable_iff [symmetric] by blast
  then show ?thesis
    using a1 a2 a3 a4 by (simp add: workingSet_def item_def initialState_def)
qed

section \<open>Removing a file\<close>

text \<open>
  C10. \<open>removeFile\<close> with any id keeps the entries of the working set whose id differs
  from it, each as often and in the order it stood there, removes all the others, and
  leaves the converted results, the statistics, the progress, the quality and the
  running flag as they were.
\<close>

theorem removeFile_frame:
  "files (removeFile fileId s) = filter (\<lambda>f. fd_id f \<noteq> fileId) (files s)
   \<and> (\<forall>f. f \<in> set (files (removeFile fileId s)) \<longleftrightarrow> f \<in> set (files s) \<and> fd_id f \<noteq> fileId)
   \<and> subseq (files (removeFile fileId s)) (files s)
   \<and> convertedFiles (removeFile fileId s) = convertedFiles s
   \<and> stats (removeFile fileId s) = stats s
   \<and> progress (removeFile fileId s) = progress s
   \<and> quality (removeFile fileId s) = quality s
   \<and> converting (removeFile fileId s) = converting s"
  by (auto simp add: removeFile_def)

theorem removeFile_frame_witness:
  "files (removeFile ''b'' (workingSet [item ''a'' (png ''1.png'' 1), item ''b'' (png ''2.png'' 2),
       item ''c'' (png ''3.png'' 3), item ''b'' (png ''4.png'' 4)]))
   = [item ''a'' (png ''1.png'' 1), item ''c'' (png ''3.png'' 3)]
   \<and> quality (removeFile ''b'' (workingSet [item ''a'' (png ''1.png'' 1), item ''b'' (png ''2.png'' 2),
       item ''c'' (png ''3.png'' 3), item ''b'' (png ''4.png'' 4)])) = 95"
  using removeFile_frame [of "''b''" "workingSet [item ''a'' (png ''1.png'' 1), item ''b'' (png ''2.png'' 2),
       item ''c'' (png ''3.png'' 3), item ''b'' (png ''4.png'' 4)]"]
  by (simp add: workingSet_def item_def initialState_def)

section \<open>The size formatter\<close>

text \<open>
  For a positive byte count and an engine whose \<open>Math.log(1024)\<close> is not zero, the
  index is the integer part of the quotient of the two logarithms, rounded to a double.
\<close>

lemma unitIndex_pos:
  assumes "0 < b" "mathLog H 1024 \<noteq> 0"
  shows "unitIndex H b
     = Fin (of_int \<lfloor>fl (mathLog H (of_int b) / mathLog H 1024)\<rfloor>)"
  using assms by (simp add: unitIndex_def Math_log_def Math_floor_def)

text \<open>
  Let \<open>Math.log\<close> be monotone, positive at 1024, and four times as large at \<open>1024^4\<close>
  as at 1024. Then the quotient is at least 4 from \<open>1024^4\<close> on, and so is its double.
\<close>

lemma unitIndex_large:
  assumes mono: "\<forall>x y. 0 < x \<longrightarrow> x \<le> y \<longrightarrow> mathLog H x \<le> mathLog H y"
    and four: "mathLog H (1024 ^ 4) = 4 * mathLog H 1024"
    and pos: "0 < mathLog H 1024"
    and big: "1024 ^ 4 \<le> b"
  shows "\<exists>n. unitIndex H b = Fin (of_int n) \<and> 4 \<le> n"
proof -
  have b: "0 < b" using big by simp
  have "(of_int (1024 ^ 4) :: rat) \<le> of_int b" using big by (simp only: of_int_le_iff)
  then have "(1024 :: rat) ^ 4 \<le> of_int b" by simp
  then have "mathLog H (1024 ^ 4) \<le> mathLog H (of_int b)" using mono by simp
  then have "4 \<le> mathLog H (of_int b) / mathLog H 1024"
    using four pos by (simp add: pos_le_divide_eq)
  then have "fl 4 \<le> fl (mathLog H (of_int b) / mathLog H 1024)"
    by (intro fl_mono) simp_all
  then have "4 \<le> \<lfloor>fl (mathLog H (of_int b) / mathLog H 1024)\<rfloor>"
    by (simp add: fl_4 le_floor_iff)
  then show ?thesis using unitIndex_pos [OF b] pos by auto
qed

text \<open>
  Let moreover \<open>Math.log(1)\<close> be 0 and the double of
  \<open>Math.log(1024^4 - 1) / Math.log(1024)\<close> be less than 4. Then the index of a byte
  count from 1 to \<open>1024^4 - 1\<close> is one of 0, 1, 2, 3.
\<close>

lemma unitIndex_small:
  assumes mono: "\<forall>x y. 0 < x \<longrightarrow> x \<le> y \<longrightarrow> mathLog H x \<le> mathLog H y"
    and pos: "0 < mathLog H 1024"
    and one: "mathLog H 1 = 0"
    and below: "fl (mathLog H (1024 ^ 4 - 1) / mathLog H 1024) < 4"
    and b: "0 < b" "b < 1024 ^ 4"
  shows "\<exists>n. unitIndex H b = Fin (of_nat n) \<and> n < 4"
proof -
  let ?q = "mathLog H (of_int b) / mathLog H 1024"
  have "b \<le> 1024 ^ 4 - 1" "1 \<le> b" using b by simp_all
  then have "(of_int b :: rat) \<le> of_int (1024 ^ 4 - 1)" "(of_int 1 :: rat) \<le> of_int b"
    by (simp_all only: of_int_le_iff)
  then have r: "(of_int b :: rat) \<le> 1024 ^ 4 - 1" "(1 :: rat) \<le> of_int b"
    by simp_all
  then have "mathLog H 1 \<le> mathLog H (of_int b)"
    "mathLog H (of_int b) \<le> mathLog H (1024 ^ 4 - 1)"
    using mono by simp_all
  then have q: "0 \<le> ?q" "?q \<le> mathLog H (1024 ^ 4 - 1) / mathLog H 1024"
    using one pos by (simp_all add: divide_right_mono)
  then have "0 \<le> fl ?q" "fl ?q \<le> fl (mathLog H (1024 ^ 4 - 1) / mathLog H 1024)"
    by (simp_all add: fl_nonneg fl_mono)
  with below have f: "0 \<le> fl ?q" "fl ?q < 4" by simp_all
  then have fb: "0 \<le> \<lfloor>fl ?q\<rfloor>" "\<lfloor>fl ?q\<rfloor> < 4" by (simp_all add: floor_less_iff)
  have "\<lfloor>fl ?q\<rfloor> = int (nat \<lfloor>fl ?q\<rfloor>)" "nat \<lfloor>fl ?q\<rfloor> < 4"
    using fb by linarith+
  then obtain n where n: "\<lfloor>fl ?q\<rfloor> = int n" "n < 4" by blast
  have "unitIndex H b = Fin (of_int \<lfloor>fl ?q\<rfloor>)"
    using unitIndex_pos [OF b(1)] pos by simp
  then show ?thesis using n by (intro exI [of _ n]) simp
qed

lemma unitText_large: "4 \<le> n \<Longrightarrow> unitText (Fin (of_int n)) = ''undefined''"
  by (simp add: unitText_def sizes_def)

lemma unitText_small: "n < 4 \<Longrightarrow> unitText (Fin (of_nat n)) = sizes ! n"
  by (simp add: unitText_def sizes_def)

text \<open>
  C8. In every engine whose \<open>Math.log\<close> is monotone, positive at 1024 and four times
  as large at \<open>1024^4\<close> as at 1024: for every byte count of \<open>1024^4\<close> or more the unit
  index is at least the length of the table \<open>sizes\<close>, the look-up yields
  \<open>undefined\<close>, and the text returned ends in \<open>undefined\<close> and in none of the four
  units. For every byte count from 1 up to \<open>1024^4 - 1\<close>, when \<open>Math.log(1)\<close> is 0 and
  the quotient for \<open>1024^4 - 1\<close> is a double below 4, the index is inside the table and
  the text ends in the unit found there; zero is answered before the table is consulted.
\<close>

theorem formatFileSize_unit:
  assumes mono: "\<forall>x y. 0 < x \<longrightarrow> x \<le> y \<longrightarrow> mathLog H x \<le> mathLog H y"
    and four: "mathLog H (1024 ^ 4) = 4 * mathLog H 1024"
    and pos: "0 < mathLog H 1024"
  shows "(1024 ^ 4 \<le> b \<longrightarrow>
      (\<exists>n. unitIndex H b = Fin (of_int n) \<and> int (length sizes) \<le> n)
      \<and> unitText (unitIndex H b) = ''undefined''
      \<and> suffix '' undefined'' (formatFileSize H b)
      \<and> (\<forall>u \<in> set sizes. \<not> suffix ('' '' @ u) (formatFileSize H b)))
   \<and> (0 < b \<and> b < 1024 ^ 4 \<and> mathLog H 1 = 0
        \<and> fl (mathLog H (1024 ^ 4 - 1) / mathLog H 1024) < 4 \<longrightarrow>
      (\<exists>n. unitIndex H b = Fin (of_nat n) \<and> n < length sizes
           \<and> unitText (unitIndex H b) = sizes ! n)
      \<and> suffix ('' '' @ unitText (unitIndex H b)) (formatFileSize H b))
   \<and> formatFileSize H 0 = ''0 Bytes''"
proof (intro conjI impI)
  assume big: "1024 ^ 4 \<le> b"
  then obtain n where n: "unitIndex H b = Fin (of_int n)" "4 \<le> n"
    using unitIndex_large [OF mono four pos] by blast
  then show "\<exists>n. unitIndex H b = Fin (of_int n) \<and> int (length sizes) \<le> n"
    by (auto simp add: sizes_def)
  show u: "unitText (unitIndex H b) = ''undefined''"
    using n by (simp add: unitText_large)
  have nz: "b \<noteq> 0" using big by auto
  show s: "suffix '' undefined'' (formatFileSize H b)"
    using nz u by (simp add: formatFileSize_def Let_def suffix_def)
  show "\<forall>u \<in> set sizes. \<not> suffix ('' '' @ u) (formatFileSize H b)"
  proof
    fix x assume x: "x \<in> set sizes"
    show "\<not> suffix ('' '' @ x) (formatFileSize H b)"
    proof
      assume "suffix ('' '' @ x) (formatFileSize H b)"
      then have "last (formatFileSize H b) = last ('' '' @ x)"
        by (auto simp add: suffix_def)
      moreover have "last (formatFileSize H b) = CHR ''d''"
        using s by (auto simp add: suffix_def)
      ultimately show False using x by (auto simp add: sizes_def)
    qed
  qed
next
  assume a: "0 < b \<and> b < 1024 ^ 4 \<and> mathLog H 1 = 0
        \<and> fl (mathLog H (1024 ^ 4 - 1) / mathLog H 1024) < 4"
  then obtain n where n: "unitIndex H b = Fin (of_nat n)" "n < 4"
    using unitIndex_small [OF mono pos] by blast
  then show "\<exists>n. unitIndex H b = Fin (of_nat n) \<and> n < length sizes
      \<and> unitText (unitIndex H b) = sizes ! n"
    using unitText_small by (auto simp add: sizes_def)
next
  assume "0 < b \<and> b < 1024 ^ 4 \<and> mathLog H 1 = 0
        \<and> fl (mathLog H (1024 ^ 4 - 1) / mathLog H 1024) < 4"
  then show "suffix ('' '' @ unitText (unitIndex H b)) (formatFileSize H b)"
    by (simp add: formatFileSize_def Let_def suffix_def)
next
  show "formatFileSize H 0 = ''0 Bytes''" by (simp add: formatFileSize_def)
qed

text \<open>The logarithm of the examples meets these conditions.\<close>

lemma sampleLog_mono: "x \<le> y \<Longrightarrow> sampleLog x \<le> sampleLog y"
  by (simp add: sampleLog_def)

lemma sampleLog_values:
  "sampleLog 1 = 0"
  "sampleLog 1024 = 7804143460206699 / 1125899906842624"
  "sampleLog 1536 = 516291036728351 / 70368744177664"
  "sampleLog (1024 ^ 4 - 1) = 7804143460206443 / 281474976710656"
  "sampleLog (1024 ^ 4) = 7804143460206699 / 281474976710656"
  by (simp_all add: sampleLog_def)

lemma sample_quotients:
  "Math_floor (js_div (Fin (7804143460206699 / 281474976710656))
      (Fin (7804143460206699 / 1125899906842624))) = Fin 4"
  "Math_floor (js_div (Fin (516291036728351 / 70368744177664))
      (Fin (7804143460206699 / 1125899906842624))) = Fin 1"
  "fl ((7804143460206443 / 281474976710656) / (7804143460206699 / 1125899906842624)) < 4"
  by code_simp+

lemma fl_3_2: "fl (3 / 2) = 3 / 2"
  by code_simp

lemma toFixed_1: "toFixed e 2 (Fin 1) = ''1.00''"
  by code_simp

lemma toFixed_3_2: "toFixed e 2 (Fin (3 / 2)) = ''1.50''"
  by code_simp

lemma reparse_1: "reparse ''1.00'' = ''1''"
  by code_simp

lemma reparse_3_2: "reparse ''1.50'' = ''1.5''"
  by code_simp

lemma sample_index_TB: "unitIndex sampleHost (1024 ^ 4) = Fin 4"
proof -
  have "Math_log sampleHost (of_int (1024 ^ 4)) = Fin (7804143460206699 / 281474976710656)"
    "Math_log sampleHost 1024 = Fin (7804143460206699 / 1125899906842624)"
    using sampleLog_values by (simp_all add: Math_log_def sampleHost_def)
  then show ?thesis unfolding unitIndex_def by (simp only: sample_quotients)
qed

lemma sample_index_1536: "unitIndex sampleHost 1536 = Fin 1"
proof -
  have "Math_log sampleHost (of_int 1536) = Fin (516291036728351 / 70368744177664)"
    "Math_log sampleHost 1024 = Fin (7804143460206699 / 1125899906842624)"
    using sampleLog_values by (simp_all add: Math_log_def sampleHost_def)
  then show ?thesis unfolding unitIndex_def by (simp only: sample_quotients)
qed

text \<open>One tebibyte is the first size without a unit.\<close>

lemma formatFileSize_TB: "formatFileSize sampleHost (1024 ^ 4) = ''1 undefined''"
proof -
  have p: "pow1024 (Fin 4) = Fin (1024 ^ 4)" by (simp add: pow1024_def)
  have d: "js_div (Fin (of_int (1024 ^ 4))) (Fin (1024 ^ 4)) = Fin 1"
    by (simp add: fl_1)
  have u: "unitText (Fin 4) = ''undefined''" by (simp add: unitText_def sizes_def)
  show ?thesis
    unfolding formatFileSize_def Let_def sample_index_TB p d u toFixed_1 reparse_1 by simp
qed

text \<open>The scenario of the specification: \<open>formatFileSize(1536) = "1.5 KB"\<close>.\<close>

lemma formatFileSize_1536: "formatFileSize sampleHost 1536 = ''1.5 KB''"
proof -
  have p: "pow1024 (Fin 1) = Fin 1024" by (simp add: pow1024_def)
  have d: "js_div (Fin (of_int 1536)) (Fin 1024) = Fin (3 / 2)"
    by (simp add: fl_3_2)
  have u: "unitText (Fin 1) = ''KB''" by (simp add: unitText_def sizes_def)
  show ?thesis
    unfolding formatFileSize_def Let_def sample_index_1536 p d u toFixed_3_2 reparse_3_2 by simp
qed

theorem formatFileSize_unit_witness:
  "mathLog sampleHost (1024 ^ 4) = 4 * mathLog sampleHost 1024
   \<and> 0 < mathLog sampleHost 1024
   \<and> (1024 :: int) ^ 4 \<le> 1024 ^ 4
   \<and> unitText (unitIndex sampleHost (1024 ^ 4)) = ''undefined''
   \<and> formatFileSize sampleHost (1024 ^ 4) = ''1 undefined''
   \<and> (0 :: int) < 1536 \<and> (1536 :: int) < 1024 ^ 4 \<and> mathLog sampleHost 1 = 0
   \<and> fl (mathLog sampleHost (1024 ^ 4 - 1) / mathLog sampleHost 1024) < 4
   \<and> suffix ('' '' @ unitText (unitIndex sampleHost 1536)) ''1.5 KB''"
proof -
  have m: "\<forall>x y. 0 < x \<longrightarrow> x \<le> y \<longrightarrow> mathLog sampleHost x \<le> mathLog sampleHost y"
    by (simp add: sampleHost_def sampleLog_mono)
  have v: "mathLog sampleHost (1024 ^ 4) = 4 * mathLog sampleHost 1024"
    "0 < mathLog sampleHost 1024" "mathLog sampleHost 1 = 0"
    using sampleLog_values by (simp_all add: sampleHost_def)
  have l: "fl (mathLog sampleHost (1024 ^ 4 - 1) / mathLog sampleHost 1024) < 4"
    using sampleLog_values sample_quotients(3) by (simp only: sampleHost_def Host.simps)
  show ?thesis
    using formatFileSize_unit [OF m v(1,2), of "1024 ^ 4"]
      formatFileSize_unit [OF m v(1,2), of 1536] v l
      formatFileSize_TB formatFileSize_1536
    by simp
qed

section \<open>Replacing the extension\<close>

lemma extensionHere_dot_inside:
  "CHR ''.'' \<in> set r \<Longrightarrow> \<not> extensionHere (c # r)"
  by (auto simp add: extensionHere_def list_all_iff)

text \<open>
  A name with an extension, that is a last point followed by at least one character
  and no \<open>/\<close>, gets \<open>.webp\<close> in its place.
\<close>

lemma replaceExtension_ext:
  assumes "ext \<noteq> []" "list_all (\<lambda>d. d \<noteq> CHR ''/'' \<and> d \<noteq> CHR ''.'') ext"
  shows "replaceExtension (stem @ ''.'' @ ext) = stem @ ''.webp''"
proof (induction stem)
  case Nil
  from assms show ?case by (simp add: extensionHere_def)
next
  case (Cons c stem)
  have "\<not> extensionHere (c # stem @ ''.'' @ ext)"
    by (rule extensionHere_dot_inside) simp
  with Cons show ?case by simp
qed

text \<open>A name without a point, or ending in one, is returned as it is.\<close>

lemma replaceExtension_no_dot:
  "CHR ''.'' \<notin> set n \<Longrightarrow> replaceExtension n = n"
  by (induction n) (auto simp add: extensionHere_def)

lemma replaceExtension_trailing_dot:
  "replaceExtension (stem @ ''.'') = stem @ ''.''"
proof (induction stem)
  case Nil
  show ?case by (simp add: extensionHere_def)
next
  case (Cons c stem)
  have "\<not> extensionHere (c # stem @ ''.'')"
    by (rule extensionHere_dot_inside) simp
  with Cons show ?case by simp
qed

section \<open>The promise of convertToWebP\<close>

text \<open>
  A conversion whose image does not decode, or whose encoder yields no blob, never
  settles; the promise is rejected only when the executor itself throws.
\<close>

lemma convertToWebP_unsettled:
  assumes "\<not> executorThrows H f"
    and "\<not> imageLoads H f \<or> toBlob H f (js_div (Fin (of_nat q)) (Fin 100)) = None"
  shows "convertToWebP H f q = Pending"
  using assms by (auto simp add: convertToWebP_def)


section \<open>The loop\<close>

lemma successes_Nil: "successes conv q [] = []"
  by (simp add: successes_def map_filter_simps)

lemma successes_Cons:
  "successes conv q (fd # fds) =
     (case conv (fd_file fd) q of Resolved r \<Rightarrow> r # successes conv q fds
      | _ \<Rightarrow> successes conv q fds)"
  by (simp add: successes_def map_filter_simps resolvedValue_def split: promise.splits)

lemma convertLoop_past_end:
  "\<not> i < length fs \<Longrightarrow> convertLoop conv fs q i v = (v, True)"
  by (subst convertLoop.simps) simp

lemma convertLoop_Pending:
  "i < length fs \<Longrightarrow> conv (fd_file (fs ! i)) q = Pending \<Longrightarrow>
   convertLoop conv fs q i v = (v, False)"
  by (subst convertLoop.simps) simp

lemma convertLoop_Rejected:
  "i < length fs \<Longrightarrow> conv (fd_file (fs ! i)) q = Rejected \<Longrightarrow>
   convertLoop conv fs q i v = convertLoop conv fs q (i + 1) v"
  by (subst convertLoop.simps) simp

lemma convertLoop_Resolved:
  "i < length fs \<Longrightarrow> conv (fd_file (fs ! i)) q = Resolved r \<Longrightarrow>
   convertLoop conv fs q i v = convertLoop conv fs q (i + 1) (afterSuccess (length fs) i r v)"
  by (subst convertLoop.simps) (simp add: afterSuccess_def Let_def)

lemma afterSuccess_progress:
  "progress (state (afterSuccess n i r v))
     = js_mul (js_div (Fin (of_nat (i + 1))) (Fin (of_nat n))) (Fin 100)"
  by (simp add: afterSuccess_def Let_def)

text \<open>
  What the loop leaves behind when started at item \<open>i\<close>: the results of the resolved
  items up to the first one that never settles, appended to \<open>results\<close> and to
  \<open>convertedFiles\<close> and added to the two totals; the flag tells whether every item
  settled.
\<close>

lemma convertLoop_run:
  "convertLoop conv fs q i v = (v', fin) \<Longrightarrow>
     results v' = results v @ successes conv q (takeWhile (settles conv q) (drop i fs))
     \<and> sumOriginal v' = sumOriginal v
          + sum_list (map originalSize (successes conv q (takeWhile (settles conv q) (drop i fs))))
     \<and> sumConverted v' = sumConverted v
          + sum_list (map convertedSize (successes conv q (takeWhile (settles conv q) (drop i fs))))
     \<and> convertedFiles (state v') = convertedFiles (state v)
          @ successes conv q (takeWhile (settles conv q) (drop i fs))
     \<and> files (state v') = files (state v)
     \<and> converting (state v') = converting (state v)
     \<and> quality (state v') = quality (state v)
     \<and> stats (state v') = stats (state v)
     \<and> fin = list_all (settles conv q) (drop i fs)"
proof (induction "length fs - i" arbitrary: i v)
  case 0
  then have "\<not> i < length fs" by simp
  with 0 show ?case by (simp add: convertLoop_past_end successes_Nil)
next
  case (Suc k)
  then have i: "i < length fs" by simp
  then have d: "drop i fs = fs ! i # drop (Suc i) fs" by (simp add: Cons_nth_drop_Suc)
  have k: "k = length fs - (i + 1)" using Suc.hyps(2) by simp
  show ?case
  proof (cases "conv (fd_file (fs ! i)) q")
    case (Resolved r)
    with i Suc.prems
    have "convertLoop conv fs q (i + 1) (afterSuccess (length fs) i r v) = (v', fin)"
      by (simp add: convertLoop_Resolved)
    from Suc.hyps(1) [OF k this] Resolved show ?thesis
      by (simp add: d settles_def successes_Cons afterSuccess_def Let_def)
  next
    case Rejected
    with i Suc.prems have "convertLoop conv fs q (i + 1) v = (v', fin)"
      by (simp add: convertLoop_Rejected)
    from Suc.hyps(1) [OF k this] Rejected show ?thesis
      by (simp add: d settles_def successes_Cons)
  next
    case Pending
    with i Suc.prems have "v' = v" "fin = False" by (simp_all add: convertLoop_Pending)
    with Pending show ?thesis by (simp add: d settles_def successes_Nil)
  qed
qed

text \<open>
  Every state the loop goes through holds the results collected so far, and differs
  from the state at the start of the loop in \<open>progress\<close> and \<open>convertedFiles\<close> only.
\<close>

lemma convertLoop_history:
  "convertLoop conv fs q i v = (v', fin) \<Longrightarrow>
     \<exists>hs. history v' = history v @ hs \<and> state v' = last (state v # hs)
        \<and> (\<forall>t \<in> set hs. \<exists>R. R \<noteq> [] \<and> prefix R (successes conv q (drop i fs))
               \<and> convertedFiles t = convertedFiles (state v) @ R
               \<and> files t = files (state v) \<and> converting t = converting (state v)
               \<and> quality t = quality (state v) \<and> stats t = stats (state v))"
proof (induction "length fs - i" arbitrary: i v)
  case 0
  then have "\<not> i < length fs" by simp
  with 0 show ?case by (simp add: convertLoop_past_end)
next
  case (Suc k)
  then have i: "i < length fs" by simp
  then have d: "drop i fs = fs ! i # drop (Suc i) fs" by (simp add: Cons_nth_drop_Suc)
  have k: "k = length fs - (i + 1)" using Suc.hyps(2) by simp
  show ?case
  proof (cases "conv (fd_file (fs ! i)) q")
    case (Resolved r)
    let ?w = "afterSuccess (length fs) i r v"
    from Resolved i Suc.prems
    have "convertLoop conv fs q (i + 1) ?w = (v', fin)"
      by (simp add: convertLoop_Resolved)
    from Suc.hyps(1) [OF k this] obtain hs where
      h: "history v' = history ?w @ hs" "state v' = last (state ?w # hs)"
        "\<forall>t \<in> set hs. \<exists>R. R \<noteq> [] \<and> prefix R (successes conv q (drop (i + 1) fs))
               \<and> convertedFiles t = convertedFiles (state ?w) @ R
               \<and> files t = files (state ?w) \<and> converting t = converting (state ?w)
               \<and> quality t = quality (state ?w) \<and> stats t = stats (state ?w)"
      by blast
    have s: "successes conv q (drop i fs) = r # successes conv q (drop (Suc i) fs)"
      using Resolved by (simp add: d successes_Cons)
    have w: "convertedFiles (state ?w) = convertedFiles (state v) @ [r]"
      "files (state ?w) = files (state v)" "converting (state ?w) = converting (state v)"
      "quality (state ?w) = quality (state v)" "stats (state ?w) = stats (state v)"
      "history ?w = history v @ [state ?w]"
      by (simp_all add: afterSuccess_def Let_def)
    have "\<forall>t \<in> set (state ?w # hs). \<exists>R. R \<noteq> [] \<and> prefix R (successes conv q (drop i fs))
               \<and> convertedFiles t = convertedFiles (state v) @ R
               \<and> files t = files (state v) \<and> converting t = converting (state v)
               \<and> quality t = quality (state v) \<and> stats t = stats (state v)"
    proof
      fix t assume "t \<in> set (state ?w # hs)"
      then consider "t = state ?w" | "t \<in> set hs" by auto
      then show "\<exists>R. R \<noteq> [] \<and> prefix R (successes conv q (drop i fs))
               \<and> convertedFiles t = convertedFiles (state v) @ R
               \<and> files t = files (state v) \<and> converting t = converting (state v)
               \<and> quality t = quality (state v) \<and> stats t = stats (state v)"
      proof cases
        case 1
        then show ?thesis using w s by (intro exI [of _ "[r]"]) simp
      next
        case 2
        then obtain R where "R \<noteq> []" "prefix R (successes conv q (drop (i + 1) fs))"
          "convertedFiles t = convertedFiles (state ?w) @ R"
          "files t = files (state ?w)" "converting t = converting (state ?w)"
          "quality t = quality (state ?w)" "stats t = stats (state ?w)"
          using h(3) by blast
        then show ?thesis using w s by (intro exI [of _ "r # R"]) simp
      qed
    qed
    moreover have "history v' = history v @ (state ?w # hs)" using h(1) w(6) by simp
    moreover have "state v' = last (state v # state ?w # hs)" using h(2) by simp
    ultimately show ?thesis by blast
  next
    case Rejected
    with i Suc.prems have "convertLoop conv fs q (i + 1) v = (v', fin)"
      by (simp add: convertLoop_Rejected)
    from Suc.hyps(1) [OF k this] Rejected show ?thesis
      by (simp add: d successes_Cons)
  next
    case Pending
    with i Suc.prems have "v' = v" "fin = False" by (simp_all add: convertLoop_Pending)
    then show ?thesis by simp
  qed
qed

section \<open>The batch\<close>

lemma convertAllFiles_empty: "files s = [] \<Longrightarrow> convertAllFiles H s = ([], Skipped)"
  by (simp add: convertAllFiles_def)

lemma convertAllFiles_loop:
  assumes "files s \<noteq> []"
    and "convertLoop (convertToWebP H) (files s) (quality s) 0 (loopStart s) = (v, fin)"
  shows "convertAllFiles H s =
     (if fin then
        (history v @ [(state v)\<lparr>stats := Some (makeStats H (length (files s)) (sumOriginal v)
                                               (sumConverted v)),
                                converting := False\<rparr>], Completed)
      else (history v, Stalled))"
  using assms by (simp add: convertAllFiles_def Let_def loopStart_def)

lemma takeWhile_all: "list_all P xs \<Longrightarrow> takeWhile P xs = xs"
  by (induction xs) simp_all

text \<open>
  A call that completes has seen every item settle; it leaves the results of the
  resolved ones in \<open>convertedFiles\<close> and the statistics computed from them.
\<close>

lemma completed_batch:
  assumes "snd (convertAllFiles H s) = Completed"
  shows "files s \<noteq> []
     \<and> list_all (settles (convertToWebP H) (quality s)) (files s)
     \<and> convertedFiles (finalState s (convertAllFiles H s))
         = successes (convertToWebP H) (quality s) (files s)
     \<and> stats (finalState s (convertAllFiles H s))
         = Some (makeStats H (length (files s))
             (sum_list (map originalSize (successes (convertToWebP H) (quality s) (files s))))
             (sum_list (map convertedSize (successes (convertToWebP H) (quality s) (files s)))))
     \<and> converting (finalState s (convertAllFiles H s)) = False
     \<and> files (finalState s (convertAllFiles H s)) = files s
     \<and> quality (finalState s (convertAllFiles H s)) = quality s"
proof -
  have ne: "files s \<noteq> []"
    using assms convertAllFiles_empty [of s H] by auto
  obtain v fin where
    l: "convertLoop (convertToWebP H) (files s) (quality s) 0 (loopStart s) = (v, fin)"
    by (cases "convertLoop (convertToWebP H) (files s) (quality s) 0 (loopStart s)") blast
  have c: "convertAllFiles H s =
     (if fin then
        (history v @ [(state v)\<lparr>stats := Some (makeStats H (length (files s)) (sumOriginal v)
                                               (sumConverted v)),
                                converting := False\<rparr>], Completed)
      else (history v, Stalled))"
    using convertAllFiles_loop [OF ne l] .
  with assms have fin: "fin" by (auto split: if_splits)
  from convertLoop_run [OF l] fin
  have all: "list_all (settles (convertToWebP H) (quality s)) (files s)" by simp
  from convertLoop_run [OF l] takeWhile_all [OF all]
  have r: "sumOriginal v = sum_list (map originalSize (successes (convertToWebP H) (quality s) (files s)))"
    "sumConverted v = sum_list (map convertedSize (successes (convertToWebP H) (quality s) (files s)))"
    "convertedFiles (state v) = successes (convertToWebP H) (quality s) (files s)"
    "files (state v) = files s" "quality (state v) = quality s"
    by (simp_all add: loopStart_def startBatch_def)
  show ?thesis
    using ne all r fin by (simp add: c finalState_def)
qed

text \<open>
  A call stalls as soon as one item of the working set never settles: \<open>converting\<close>
  stays \<open>true\<close> and \<open>stats\<close> is not written.
\<close>

lemma list_all_settles_stall:
  assumes "fd \<in> set (files s)" "\<not> settles (convertToWebP H) (quality s) fd"
  shows "snd (convertAllFiles H s) = Stalled
     \<and> converting (finalState s (convertAllFiles H s))
     \<and> stats (finalState s (convertAllFiles H s)) = stats s"
proof -
  have ne: "files s \<noteq> []" using assms(1) by auto
  obtain v fin where
    l: "convertLoop (convertToWebP H) (files s) (quality s) 0 (loopStart s) = (v, fin)"
    by (cases "convertLoop (convertToWebP H) (files s) (quality s) 0 (loopStart s)") blast
  from convertLoop_run [OF l] assms
  have f: "\<not> fin" "converting (state v)" "stats (state v) = stats s"
    by (auto simp add: list_all_iff loopStart_def startBatch_def)
  from convertLoop_history [OF l] obtain hs where
    h: "history v = startBatch s # hs" "state v = last (startBatch s # hs)"
    by (auto simp add: loopStart_def)
  have "finalState s (convertAllFiles H s) = state v"
    using convertAllFiles_loop [OF ne l] f(1) h by (simp add: finalState_def)
  then show ?thesis using convertAllFiles_loop [OF ne l] f by simp
qed

section \<open>Progress\<close>

lemma fl_100: "fl 100 = 100" by code_simp

lemma fl_half: "fl (fl (1 / 2) * 100) = 50" by code_simp

lemma progress_full:
  "0 < n \<Longrightarrow> js_mul (js_div (Fin (of_nat n)) (Fin (of_nat n))) (Fin 100) = Fin 100"
  by (simp add: fl_1 fl_100)

lemma convertLoop_last_resolved:
  "convertLoop conv fs q i v = (v', True) \<Longrightarrow> i < length fs \<Longrightarrow>
   conv (fd_file (last fs)) q = Resolved r \<Longrightarrow>
   progress (state v') = Fin 100"
proof (induction "length fs - i" arbitrary: i v)
  case 0
  then show ?case by simp
next
  case (Suc k)
  have i: "i < length fs" by fact
  have k: "k = length fs - (i + 1)" using Suc.hyps(2) by simp
  have n: "0 < length fs" using i by (cases fs) simp_all
  show ?case
  proof (cases "i + 1 < length fs")
    case True
    show ?thesis
    proof (cases "conv (fd_file (fs ! i)) q")
      case (Resolved x)
      with i Suc.prems(1)
      have "convertLoop conv fs q (i + 1) (afterSuccess (length fs) i x v) = (v', True)"
        by (simp add: convertLoop_Resolved)
      from Suc.hyps(1) [OF k this True Suc.prems(3)] show ?thesis .
    next
      case Rejected
      with i Suc.prems(1) have "convertLoop conv fs q (i + 1) v = (v', True)"
        by (simp add: convertLoop_Rejected)
      from Suc.hyps(1) [OF k this True Suc.prems(3)] show ?thesis .
    next
      case Pending
      with i Suc.prems(1) show ?thesis by (simp add: convertLoop_Pending)
    qed
  next
    case False
    with i have e: "i + 1 = length fs" by simp
    then have "i = length fs - 1" by simp
    then have "fs ! i = last fs" using n by (simp add: last_conv_nth)
    with Suc.prems(3) have r: "conv (fd_file (fs ! i)) q = Resolved r" by simp
    have "convertLoop conv fs q i v = (afterSuccess (length fs) i r v, True)"
      using i r e by (simp add: convertLoop_Resolved convertLoop_past_end)
    with Suc.prems(1) have "v' = afterSuccess (length fs) i r v" by simp
    then have "progress (state v')
        = js_mul (js_div (Fin (of_nat (length fs))) (Fin (of_nat (length fs)))) (Fin 100)"
      by (simp only: afterSuccess_progress e)
    then show ?thesis by (simp only: progress_full [OF n])
  qed
qed

text \<open>
  When the call completes and the last item was converted, the progress stands at
  exactly 100.
\<close>

lemma completed_progress:
  assumes "snd (convertAllFiles H s) = Completed"
    and "convertToWebP H (fd_file (last (files s))) (quality s) = Resolved r"
  shows "progress (finalState s (convertAllFiles H s)) = Fin 100"
proof -
  have ne: "files s \<noteq> []"
    using assms(1) convertAllFiles_empty [of s H] by auto
  obtain v fin where
    l: "convertLoop (convertToWebP H) (files s) (quality s) 0 (loopStart s) = (v, fin)"
    by (cases "convertLoop (convertToWebP H) (files s) (quality s) 0 (loopStart s)") blast
  note c = convertAllFiles_loop [OF ne l]
  with assms(1) have fin: "fin" by (auto split: if_splits)
  have "progress (state v) = Fin 100"
    using convertLoop_last_resolved [OF l [unfolded fin [THEN eqTrueI]] _ assms(2)] ne by simp
  then show ?thesis using c fin by (simp add: finalState_def)
qed

lemma progressAfter_Fin:
  "0 < n \<Longrightarrow> progressAfter k n = Fin (fl (fl (of_nat k / of_nat n) * 100))"
  by (simp add: progressAfter_def)

lemma progressAfter_mono:
  assumes "0 < n" "k \<le> k'"
  shows "num_le (progressAfter k n) (progressAfter k' n)"
proof -
  have "(of_nat k :: rat) / of_nat n \<le> of_nat k' / of_nat n"
    using assms by (simp add: divide_right_mono)
  moreover have "(0 :: rat) \<le> of_nat k / of_nat n" by simp
  ultimately have "fl (of_nat k / of_nat n) \<le> fl (of_nat k' / of_nat n)"
    "0 \<le> fl (of_nat k / of_nat n)"
    by (simp_all add: fl_mono fl_nonneg)
  then have "fl (fl (of_nat k / of_nat n) * 100) \<le> fl (fl (of_nat k' / of_nat n) * 100)"
    by (intro fl_mono) simp_all
  then show ?thesis using assms(1) by (simp add: progressAfter_Fin)
qed

lemma progressAfter_nonneg: "0 < n \<Longrightarrow> num_le (Fin 0) (progressAfter k n)"
  by (simp add: progressAfter_Fin fl_nonneg)

lemma convertLoop_progress:
  "convertLoop conv fs q i v = (v', fin) \<Longrightarrow>
     \<exists>hs. history v' = history v @ hs \<and> state v' = last (state v # hs)
        \<and> sorted_wrt num_le (map progress hs)
        \<and> (\<forall>t \<in> set hs. \<exists>k. i < k \<and> k \<le> length fs \<and> progress t = progressAfter k (length fs))"
proof (induction "length fs - i" arbitrary: i v)
  case 0
  then have "\<not> i < length fs" by simp
  with 0 show ?case by (simp add: convertLoop_past_end)
next
  case (Suc k)
  then have i: "i < length fs" by simp
  have k: "k = length fs - (i + 1)" using Suc.hyps(2) by simp
  have n: "0 < length fs" using i by (cases fs) simp_all
  show ?case
  proof (cases "conv (fd_file (fs ! i)) q")
    case (Resolved r)
    let ?w = "afterSuccess (length fs) i r v"
    from Resolved i Suc.prems
    have "convertLoop conv fs q (i + 1) ?w = (v', fin)"
      by (simp add: convertLoop_Resolved)
    from Suc.hyps(1) [OF k this] obtain hs where
      h: "history v' = history ?w @ hs" "state v' = last (state ?w # hs)"
        "sorted_wrt num_le (map progress hs)"
        "\<forall>t \<in> set hs. \<exists>k. i + 1 < k \<and> k \<le> length fs
             \<and> progress t = progressAfter k (length fs)"
      by blast
    have w: "history ?w = history v @ [state ?w]"
      "progress (state ?w) = progressAfter (i + 1) (length fs)"
      by (simp_all add: afterSuccess_def Let_def progressAfter_def)
    have "\<forall>t \<in> set hs. num_le (progress (state ?w)) (progress t)"
      using h(4) w(2) progressAfter_mono [OF n] by (metis less_imp_le)
    then have 1: "sorted_wrt num_le (map progress (state ?w # hs))"
      using h(3) by simp
    have 2: "\<forall>t \<in> set (state ?w # hs). \<exists>k. i < k \<and> k \<le> length fs
             \<and> progress t = progressAfter k (length fs)"
    proof
      fix t assume "t \<in> set (state ?w # hs)"
      then consider "t = state ?w" | "t \<in> set hs" by auto
      then show "\<exists>k. i < k \<and> k \<le> length fs \<and> progress t = progressAfter k (length fs)"
      proof cases
        case 1
        then show ?thesis using w(2) i by (intro exI [of _ "i + 1"]) simp
      next
        case 2
        then obtain k where "i + 1 < k" "k \<le> length fs"
          "progress t = progressAfter k (length fs)"
          using h(4) by blast
        then show ?thesis by (intro exI [of _ k]) simp
      qed
    qed
    have "history v' = history v @ (state ?w # hs)" using h(1) w(1) by simp
    moreover have "state v' = last (state v # state ?w # hs)" using h(2) by simp
    ultimately show ?thesis using 1 2 by blast
  next
    case Rejected
    with i Suc.prems have "convertLoop conv fs q (i + 1) v = (v', fin)"
      by (simp add: convertLoop_Rejected)
    from Suc.hyps(1) [OF k this] obtain hs where
      "history v' = history v @ hs" "state v' = last (state v # hs)"
        "sorted_wrt num_le (map progress hs)"
        "\<forall>t \<in> set hs. \<exists>k. i + 1 < k \<and> k \<le> length fs
             \<and> progress t = progressAfter k (length fs)"
      by blast
    then show ?thesis by (metis Suc_eq_plus1 Suc_lessD)
  next
    case Pending
    with i Suc.prems have "v' = v" "fin = False" by (simp_all add: convertLoop_Pending)
    then show ?thesis by simp
  qed
qed

lemma sorted_wrt_last:
  "sorted_wrt R xs \<Longrightarrow> \<forall>x \<in> set xs. R x x \<Longrightarrow> x \<in> set xs \<Longrightarrow> R x (last xs)"
  by (induction xs) auto

text \<open>
  Over the states a call of \<open>convertAllFiles\<close> goes through, the progress never
  decreases.
\<close>

lemma progress_monotone:
  assumes "files s \<noteq> []"
  shows "sorted_wrt num_le (map progress (fst (convertAllFiles H s)))"
proof -
  obtain v fin where
    l: "convertLoop (convertToWebP H) (files s) (quality s) 0 (loopStart s) = (v, fin)"
    by (cases "convertLoop (convertToWebP H) (files s) (quality s) 0 (loopStart s)") blast
  note c = convertAllFiles_loop [OF assms l]
  have n: "0 < length (files s)" using assms by simp
  from convertLoop_progress [OF l] obtain hs where
    h0: "history v = history (loopStart s) @ hs" "state v = last (state (loopStart s) # hs)"
       "sorted_wrt num_le (map progress hs)"
       "\<forall>t \<in> set hs. \<exists>k. 0 < k \<and> k \<le> length (files s)
            \<and> progress t = progressAfter k (length (files s))"
    by blast
  have h: "history v = startBatch s # hs" "state v = last (startBatch s # hs)"
       "sorted_wrt num_le (map progress hs)"
       "\<forall>t \<in> set hs. \<exists>k. progress t = progressAfter k (length (files s))"
    using h0 by (auto simp add: loopStart_def)
  have p0: "progress (startBatch s) = Fin 0" by (simp add: startBatch_def)
  have "\<forall>t \<in> set hs. num_le (progress (startBatch s)) (progress t)"
    using h(4) p0 progressAfter_nonneg [OF n] by auto
  then have s1: "sorted_wrt num_le (map progress (history v))"
    using h(1,3) by simp
  have refl: "\<forall>x \<in> set (map progress (history v)). num_le x x"
    using h(1,4) p0 progressAfter_Fin [OF n] by auto
  have "progress (state v) = last (map progress (history v))"
    using h(1,2) by (simp add: last_map)
  then have "\<forall>x \<in> set (map progress (history v)). num_le x (progress (state v))"
    using sorted_wrt_last [OF s1 refl] by simp
  then have "sorted_wrt num_le (map progress (history v) @ [progress (state v)])"
    using s1 by (simp add: sorted_wrt_append)
  then show ?thesis using c s1 by (cases fin) simp_all
qed

section \<open>The examples evaluated\<close>

lemma ratioText_pos:
  "0 < a \<Longrightarrow> ratioText H a b
     = toFixed (numberToString H) 1 (Fin (fl (fl ((of_nat a - of_nat b) / of_nat a) * 100)))"
  by (simp add: ratioText_def)

lemma fl_three_fifths: "fl (fl (3 / 5) * 100) = 60"
  by code_simp

lemma toFixed_60: "toFixed e (Suc 0) (Fin 60) = ''60.0''"
  by code_simp

lemma ratio_t: "ratioText H 1750000 700000 = ''60.0''"
  by (simp add: ratioText_pos fl_three_fifths toFixed_60)

lemma ratio_1000: "ratioText H 1000 400 = ''60.0''"
  by (simp add: ratioText_pos fl_three_fifths toFixed_60)

lemma ratio_3000: "ratioText H 3000 1200 = ''60.0''"
  by (simp add: ratioText_pos fl_three_fifths toFixed_60)

lemma sample_converts:
  "n \<noteq> ''throws.png'' \<Longrightarrow> n \<noteq> ''corrupt.png'' \<Longrightarrow> n \<noteq> ''blank.png'' \<Longrightarrow>
   convertToWebP sampleHost (png n sz) q =
     Resolved \<lparr>original = png n sz,
               converted = \<lparr>file_name = replaceExtension n, file_type = ''image/webp'',
                            file_size = sz * 2 div 5\<rparr>,
               originalSize = sz, convertedSize = sz * 2 div 5,
               compressionRatio = ratioText sampleHost sz (sz * 2 div 5)\<rparr>"
  by (simp add: convertToWebP_def sampleHost_def png_def)

lemma sample_throws: "convertToWebP sampleHost (png ''throws.png'' sz) q = Rejected"
  by (simp add: convertToWebP_def sampleHost_def png_def)

lemma sample_corrupt: "convertToWebP sampleHost (png ''corrupt.png'' sz) q = Pending"
  by (simp add: convertToWebP_def sampleHost_def png_def)

lemma sample_blank: "convertToWebP sampleHost (png ''blank.png'' sz) q = Pending"
  by (simp add: convertToWebP_def sampleHost_def png_def)

lemmas run_defs = convertAllFiles_def workingSet_def initialState_def item_def
      convertLoop.simps sample_converts sample_throws sample_corrupt sample_blank
      startBatch_def finalState_def makeStats_def Let_def

lemma three_run:
  "snd (convertAllFiles sampleHost threeImages) = Completed
   \<and> stats (finalState threeImages (convertAllFiles sampleHost threeImages))
      = Some \<lparr>totalFiles = 3, totalOriginalSize = 1750000, totalConvertedSize = 700000,
              totalSavings = 1050000, overallRatio = ''60.0''\<rparr>"
  by (simp add: convertAllFiles_def threeImages_def workingSet_def initialState_def item_def
      convertLoop.simps sample_converts startBatch_def finalState_def makeStats_def
      ratio_t Let_def)

lemma lastCorrupt_run:
  "snd (convertAllFiles sampleHost lastCorrupt) = Stalled
   \<and> progress (finalState lastCorrupt (convertAllFiles sampleHost lastCorrupt)) = Fin 50
   \<and> converting (finalState lastCorrupt (convertAllFiles sampleHost lastCorrupt))
   \<and> stats (finalState lastCorrupt (convertAllFiles sampleHost lastCorrupt)) = None"
  by (simp add: run_defs lastCorrupt_def fl_half)

lemma lastThrows_run:
  "snd (convertAllFiles sampleHost lastThrows) = Completed
   \<and> progress (finalState lastThrows (convertAllFiles sampleHost lastThrows)) = Fin 50"
  by (simp add: run_defs lastThrows_def fl_half)

lemma firstCorrupt_run:
  "convertAllFiles sampleHost firstCorrupt = ([startBatch firstCorrupt], Stalled)"
  by (simp add: run_defs firstCorrupt_def)

lemma firstBlank_run:
  "convertAllFiles sampleHost firstBlank = ([startBatch firstBlank], Stalled)"
  by (simp add: run_defs firstBlank_def)

lemma midBatch_eq:
  "midBatch = (startBatch twoImages)
      \<lparr>progress := Fin 50,
       convertedFiles := [\<lparr>original = png ''a.png'' 1000,
               converted = \<lparr>file_name = ''a.webp'', file_type = ''image/webp'', file_size = 400\<rparr>,
               originalSize = 1000, convertedSize = 400, compressionRatio = ''60.0''\<rparr>]\<rparr>"
  by (simp add: midBatch_def twoImages_def run_defs fl_half ratio_1000 extensionHere_def)

lemma photo_convert:
  "convertToWebP sampleHost (png ''photo'' 1000) 95
     = Resolved \<lparr>original = png ''photo'' 1000,
               converted = \<lparr>file_name = ''photo'', file_type = ''image/webp'', file_size = 400\<rparr>,
               originalSize = 1000, convertedSize = 400, compressionRatio = ''60.0''\<rparr>"
  by (simp add: sample_converts ratio_1000 extensionHere_def)

lemma secondRound_facts:
  "files secondRound = [item ''b'' (png ''b.png'' 2000)]
   \<and> length (convertedFiles secondRound) = 2
   \<and> stats secondRound = Some \<lparr>totalFiles = 2, totalOriginalSize = 3000, totalConvertedSize = 1200,
               totalSavings = 1800, overallRatio = ''60.0''\<rparr>
   \<and> quality secondRound = 95"
  by (simp add: secondRound_def removeFile_def twoImages_def run_defs ratio_3000)

section \<open>Progress of a batch\<close>

text \<open>
  C1. The progress never decreases during a call, and stands at exactly 100 after a
  call that completes with its last item converted (the two lemmas above). It is set
  in the \<open>try\<close> block only, after the \<open>await\<close>. With the
  working set \<open>a.png\<close>, \<open>corrupt.png\<close>, the second image never decodes: the call
  stalls at its \<open>await\<close> with the progress at 50 and \<open>converting\<close> still \<open>true\<close>.
  With \<open>a.png\<close>, \<open>throws.png\<close>, the second promise is rejected: the call completes,
  and the progress is 50 at its end, not 100.
\<close>

theorem progress_stuck:
  "snd (convertAllFiles sampleHost lastCorrupt) = Stalled
   \<and> progress (finalState lastCorrupt (convertAllFiles sampleHost lastCorrupt)) = Fin 50
   \<and> converting (finalState lastCorrupt (convertAllFiles sampleHost lastCorrupt))
   \<and> snd (convertAllFiles sampleHost lastThrows) = Completed
   \<and> progress (finalState lastThrows (convertAllFiles sampleHost lastThrows)) = Fin 50"
  using lastCorrupt_run lastThrows_run by simp

section \<open>Failure of a single conversion\<close>

text \<open>
  C2. A conversion whose image does not decode (\<open>corrupt.png\<close>), or whose encoder
  yields no blob (\<open>blank.png\<close>), ends in no outcome at all: its promise stays pending.
  A batch whose first item is such a file goes through the state set up at its start
  and no other: the second item is never reached, no statistics are written, and
  \<open>converting\<close> stays \<open>true\<close>.
\<close>

theorem failure_stalls:
  "convertToWebP sampleHost (png ''corrupt.png'' 1000) 95 = Pending
   \<and> convertToWebP sampleHost (png ''blank.png'' 1000) 95 = Pending
   \<and> convertAllFiles sampleHost firstCorrupt = ([startBatch firstCorrupt], Stalled)
   \<and> convertAllFiles sampleHost firstBlank = ([startBatch firstBlank], Stalled)
   \<and> converting (startBatch firstCorrupt) \<and> convertedFiles (startBatch firstCorrupt) = []
   \<and> stats (startBatch firstCorrupt) = None"
  using sample_corrupt sample_blank firstCorrupt_run firstBlank_run
  by (simp add: startBatch_def firstCorrupt_def workingSet_def initialState_def)

section \<open>The aggregate ratio\<close>

text \<open>
  The expression \<open>((a - b) / a * 100).toFixed(1)\<close> has no guard of its own: at
  \<open>a = 0\<close>, \<open>b = 0\<close> it is the text \<open>NaN\<close>.
\<close>

lemma ratioText_zero: "ratioText H 0 0 = ''NaN''"
  by (simp add: ratioText_def toFixed_def)














section \<open>The statistics of a batch\<close>

text \<open>
  C4. After every completed batch \<open>stats\<close> is set; \<open>totalFiles\<close> is the number of
  items of the working set, converted or not; \<open>convertedFiles\<close> holds the results of
  the items whose conversion succeeded, and \<open>totalOriginalSize\<close> and
  \<open>totalConvertedSize\<close> are the sums of their original and converted sizes;
  \<open>totalSavings\<close> is the first total minus the second; and the ratio is
  \<open>((totalOriginalSize - totalConvertedSize) / totalOriginalSize * 100).toFixed(1)\<close>.
\<close>

theorem batch_stats:
  assumes "snd (convertAllFiles H s) = Completed"
  shows "\<exists>st. stats (finalState s (convertAllFiles H s)) = Some st
     \<and> totalFiles st = length (files s)
     \<and> convertedFiles (finalState s (convertAllFiles H s))
         = successes (convertToWebP H) (quality s) (files s)
     \<and> totalOriginalSize st
         = sum_list (map originalSize (convertedFiles (finalState s (convertAllFiles H s))))
     \<and> totalConvertedSize st
         = sum_list (map convertedSize (convertedFiles (finalState s (convertAllFiles H s))))
     \<and> totalSavings st = int (totalOriginalSize st) - int (totalConvertedSize st)
     \<and> overallRatio st
         = toFixed (numberToString H) 1
             (js_mul (js_div (Fin (of_int (int (totalOriginalSize st) - int (totalConvertedSize st))))
                             (Fin (of_nat (totalOriginalSize st))))
                     (Fin 100))"
  using completed_batch [OF assms] by (simp add: makeStats_def ratioText_def)

text \<open>
  The scenario of the specification: 1,000,000, 500,000 and 250,000 bytes converted to
  400,000, 200,000 and 100,000.
\<close>

theorem batch_stats_witness:
  "snd (convertAllFiles sampleHost threeImages) = Completed
   \<and> (\<exists>st. stats (finalState threeImages (convertAllFiles sampleHost threeImages)) = Some st
        \<and> totalFiles st = 3 \<and> totalOriginalSize st = 1750000 \<and> totalConvertedSize st = 700000
        \<and> totalSavings st = 1050000 \<and> overallRatio st = ''60.0''
        \<and> sum_list (map originalSize
             (convertedFiles (finalState threeImages (convertAllFiles sampleHost threeImages))))
           = 1750000)"
  using batch_stats [of sampleHost threeImages] three_run by auto

section \<open>The output name\<close>

text \<open>
  C5. A file named \<open>photo\<close> of type \<open>image/png\<close> is accepted by \<open>handleFileSelect\<close>;
  its conversion succeeds with an output of type \<open>image/webp\<close> that is still named
  \<open>photo\<close>: the pattern finds no extension to replace, and the output name does not
  end in \<open>.webp\<close>.
\<close>

theorem extensionless_name:
  "acceptable (png ''photo'' 1000)
   \<and> convertToWebP sampleHost (png ''photo'' 1000) 95
     = Resolved \<lparr>original = png ''photo'' 1000,
               converted = \<lparr>file_name = ''photo'', file_type = ''image/webp'', file_size = 400\<rparr>,
               originalSize = 1000, convertedSize = 400, compressionRatio = ''60.0''\<rparr>
   \<and> \<not> endsWith ''photo'' ''.webp''"
proof -
  have "acceptable (png ''photo'' 1000)" by code_simp
  moreover have "\<not> endsWith ''photo'' ''.webp''" by (simp add: endsWith_def)
  ultimately show ?thesis using photo_convert by simp
qed

section \<open>Starting a batch\<close>

text \<open>
  C6. With an empty working set a call of \<open>convertAllFiles\<close>, and a click, return at
  once and change nothing; a call with a non-empty working set begins by setting
  \<open>converting\<close>. While \<open>converting\<close> is set the button is disabled, and a click
  starts no batch and changes nothing; a click on the enabled button is a call of
  \<open>convertAllFiles\<close>.
\<close>

theorem running_gate:
  "(files s = [] \<longrightarrow> convertAllFiles H s = ([], Skipped) \<and> clickConvert H s = ([], Skipped))
   \<and> (files s \<noteq> [] \<longrightarrow>
        (\<exists>rest. fst (convertAllFiles H s) = startBatch s # rest) \<and> converting (startBatch s))
   \<and> (converting s \<longrightarrow> clickConvert H s = ([], Skipped))
   \<and> (\<not> converting s \<and> files s \<noteq> [] \<longrightarrow> clickConvert H s = convertAllFiles H s)"
proof (intro conjI impI)
  assume "files s = []"
  then show "convertAllFiles H s = ([], Skipped)" by (rule convertAllFiles_empty)
next
  assume "files s = []"
  then show "clickConvert H s = ([], Skipped)" by (simp add: clickConvert_def)
next
  assume ne: "files s \<noteq> []"
  obtain v fin where
    l: "convertLoop (convertToWebP H) (files s) (quality s) 0 (loopStart s) = (v, fin)"
    by (cases "convertLoop (convertToWebP H) (files s) (quality s) 0 (loopStart s)") blast
  from convertLoop_history [OF l] obtain hs where "history v = startBatch s # hs"
    by (auto simp add: loopStart_def)
  then show "\<exists>rest. fst (convertAllFiles H s) = startBatch s # rest"
    using convertAllFiles_loop [OF ne l] by simp
next
  show "converting (startBatch s)" by (simp add: startBatch_def)
next
  assume "converting s"
  then show "clickConvert H s = ([], Skipped)" by (simp add: clickConvert_def)
next
  assume "\<not> converting s \<and> files s \<noteq> []"
  then show "clickConvert H s = convertAllFiles H s" by (simp add: clickConvert_def)
qed

theorem running_gate_witness:
  "files initialState = [] \<and> clickConvert sampleHost initialState = ([], Skipped)
   \<and> convertAllFiles sampleHost initialState = ([], Skipped)
   \<and> files twoImages \<noteq> [] \<and> \<not> converting twoImages
   \<and> hd (fst (clickConvert sampleHost twoImages)) = startBatch twoImages
   \<and> converting (startBatch twoImages)
   \<and> converting midBatch \<and> clickConvert sampleHost midBatch = ([], Skipped)"
proof -
  have a: "files initialState = []" by (simp add: initialState_def)
  have b: "files twoImages \<noteq> []" "\<not> converting twoImages"
    by (simp_all add: twoImages_def workingSet_def initialState_def)
  have c: "converting midBatch" by (simp add: midBatch_eq startBatch_def)
  show ?thesis
    using running_gate [of initialState sampleHost] running_gate [of twoImages sampleHost]
      running_gate [of midBatch sampleHost] a b c
    by auto
qed

section \<open>Results of an earlier batch\<close>

text \<open>
  C9. A call of \<open>convertAllFiles\<close> on a non-empty working set begins with a state in
  which the results are empty and the progress is 0. In every state it goes through,
  \<open>convertedFiles\<close> is an initial part of the list of the results of this batch, which
  depends on the working set, the quality and the browser only; and when it completes,
  the statistics are computed from that list.
\<close>

theorem fresh_results:
  assumes "files s \<noteq> []"
  shows "(\<exists>rest. fst (convertAllFiles H s) = startBatch s # rest)
     \<and> convertedFiles (startBatch s) = [] \<and> progress (startBatch s) = Fin 0
     \<and> (\<forall>t \<in> set (fst (convertAllFiles H s)).
          prefix (convertedFiles t) (successes (convertToWebP H) (quality s) (files s)))
     \<and> (snd (convertAllFiles H s) = Completed \<longrightarrow>
          stats (finalState s (convertAllFiles H s))
            = Some (makeStats H (length (files s))
                (sum_list (map originalSize (successes (convertToWebP H) (quality s) (files s))))
                (sum_list (map convertedSize (successes (convertToWebP H) (quality s) (files s))))))"
proof -
  obtain v fin where
    l: "convertLoop (convertToWebP H) (files s) (quality s) 0 (loopStart s) = (v, fin)"
    by (cases "convertLoop (convertToWebP H) (files s) (quality s) 0 (loopStart s)") blast
  note c = convertAllFiles_loop [OF assms l]
  from convertLoop_history [OF l] obtain hs where
    h: "history v = startBatch s # hs" "state v = last (startBatch s # hs)"
       "\<forall>t \<in> set hs. \<exists>R. prefix R (successes (convertToWebP H) (quality s) (files s))
               \<and> convertedFiles t = R"
    by (auto simp add: loopStart_def startBatch_def)
  have p0: "prefix (convertedFiles (startBatch s)) (successes (convertToWebP H) (quality s) (files s))"
    by (simp add: startBatch_def)
  have ph: "\<forall>t \<in> set (history v). prefix (convertedFiles t) (successes (convertToWebP H) (quality s) (files s))"
    using h p0 by auto
  have "state v \<in> set (history v)" using h(1,2) by (metis last_in_set list.distinct(1))
  then have ps: "prefix (convertedFiles (state v)) (successes (convertToWebP H) (quality s) (files s))"
    using ph by blast
  have 1: "\<exists>rest. fst (convertAllFiles H s) = startBatch s # rest"
    using c h(1) by simp
  have 2: "\<forall>t \<in> set (fst (convertAllFiles H s)).
          prefix (convertedFiles t) (successes (convertToWebP H) (quality s) (files s))"
    using c ph ps by auto
  have 3: "snd (convertAllFiles H s) = Completed \<longrightarrow>
          stats (finalState s (convertAllFiles H s))
            = Some (makeStats H (length (files s))
                (sum_list (map originalSize (successes (convertToWebP H) (quality s) (files s))))
                (sum_list (map convertedSize (successes (convertToWebP H) (quality s) (files s)))))"
    using completed_batch by blast
  show ?thesis using 1 2 3 by (simp add: startBatch_def)
qed

text \<open>
  A second batch, over the one image left, started with the two results and the
  statistics of the first batch in place: it ends with at most one result.
\<close>

theorem fresh_results_witness:
  "files secondRound \<noteq> [] \<and> length (convertedFiles secondRound) = 2
   \<and> hd (fst (convertAllFiles sampleHost secondRound)) = startBatch secondRound
   \<and> convertedFiles (startBatch secondRound) = []
   \<and> length (convertedFiles (finalState secondRound (convertAllFiles sampleHost secondRound))) \<le> 1"
proof -
  have f: "files secondRound \<noteq> []" "length (convertedFiles secondRound) = 2"
    "files secondRound = [item ''b'' (png ''b.png'' 2000)]" "quality secondRound = 95"
    using secondRound_facts by simp_all
  have s: "length (successes (convertToWebP sampleHost) (quality secondRound) (files secondRound)) = 1"
    by (simp add: f item_def successes_Cons successes_Nil sample_converts)
  from fresh_results [OF f(1), of sampleHost]
  have r: "\<exists>rest. fst (convertAllFiles sampleHost secondRound) = startBatch secondRound # rest"
    "convertedFiles (startBatch secondRound) = []"
    "\<forall>t \<in> set (fst (convertAllFiles sampleHost secondRound)).
          prefix (convertedFiles t)
            (successes (convertToWebP sampleHost) (quality secondRound) (files secondRound))"
    by blast+
  from r(1) have "finalState secondRound (convertAllFiles sampleHost secondRound)
      \<in> set (fst (convertAllFiles sampleHost secondRound))"
    by (auto simp add: finalState_def)
  with r(3) s
  have "length (convertedFiles (finalState secondRound (convertAllFiles sampleHost secondRound))) \<le> 1"
    by (metis prefix_length_le)
  then show ?thesis using f r by auto
qed

end
